theory Spec2Isabelle
  imports Complex_Main "HOL-Library.Log_Nat"
begin

section \<open>JavaScript numbers\<close>

text \<open>
  A finite JavaScript number is an IEEE-754 binary64 value; it is represented here by the
  rational it denotes. \<open>to_double\<close> rounds a rational to the nearest number with a 53-bit
  significand, ties to the even significand, as every arithmetic operation and every decimal
  literal of the language does. The exponent is not bounded: overflow to \<open>Infinity\<close> and
  subnormal results cannot arise from the counters and constants of this program.
\<close>

type_synonym js_number = rat

text \<open>\<open>ilog2 x\<close> is the exponent \<open>e\<close> with \<open>2^e \<le> x < 2^(e+1)\<close>, for positive \<open>x\<close>.\<close>

definition ilog2 :: "rat \<Rightarrow> int" where
  "ilog2 x = (case quotient_of x of (p, q) \<Rightarrow>
               (let e = bitlen p - bitlen q in if 2 powi e \<le> x then e else e - 1))"

definition round_half_even :: "rat \<Rightarrow> int" where
  "round_half_even y =
     (let f = \<lfloor>y\<rfloor>; r = y - of_int f in
      if r < 1 / 2 then f else if 1 / 2 < r then f + 1 else if even f then f else f + 1)"

definition to_double :: "rat \<Rightarrow> js_number" where
  "to_double x =
     (if x = 0 then 0
      else (let u = 2 powi (ilog2 \<bar>x\<bar> - 52)
            in sgn x * of_int (round_half_even (\<bar>x\<bar> / u)) * u))"

definition js_mul :: "js_number \<Rightarrow> js_number \<Rightarrow> js_number" where
  "js_mul a b = to_double (a * b)"

text \<open>Division; the only division of the program is guarded by \<open>totalLogs > 0\<close>.\<close>

definition js_div :: "js_number \<Rightarrow> js_number \<Rightarrow> js_number" where
  "js_div a b = to_double (a / b)"

definition Math_floor :: "js_number \<Rightarrow> js_number" where
  "Math_floor x = of_int \<lfloor>x\<rfloor>"

definition Math_ceil :: "js_number \<Rightarrow> js_number" where
  "Math_ceil x = of_int \<lceil>x\<rceil>"

definition Math_max :: "js_number \<Rightarrow> js_number \<Rightarrow> js_number" where
  "Math_max a b = (if a < b then b else a)"

text \<open>\<open>x || 0\<close> on a number: \<open>0\<close> is the only falsy counter value.\<close>

definition or_zero :: "js_number \<Rightarrow> js_number" where
  "or_zero x = (if x \<noteq> 0 then x else 0)"

section \<open>JSON values received from the server\<close>

datatype js_val =
    JUndefined
  | JNull
  | JBool bool
  | JNum rat
  | JStr string
  | JArr "js_val list"
  | JObj "(string \<times> js_val) list"

datatype js_error = TypeError | SyntaxError | HttpError

text \<open>
  Property access \<open>v.k\<close>, for the property names this program reads (none of them is a
  built-in property of a string or an array): it throws on \<open>null\<close> and \<open>undefined\<close>, and gives
  \<open>undefined\<close> when the property is absent.
\<close>

fun get_prop :: "js_val \<Rightarrow> string \<Rightarrow> js_error + js_val" where
  "get_prop JUndefined k = Inl TypeError"
| "get_prop JNull k = Inl TypeError"
| "get_prop (JObj fields) k = Inr (case map_of fields k of Some v \<Rightarrow> v | None \<Rightarrow> JUndefined)"
| "get_prop v k = Inr JUndefined"

fun truthy :: "js_val \<Rightarrow> bool" where
  "truthy JUndefined = False"
| "truthy JNull = False"
| "truthy (JBool b) = b"
| "truthy (JNum r) = (r \<noteq> 0)"
| "truthy (JStr s) = (s \<noteq> [])"
| "truthy (JArr xs) = True"
| "truthy (JObj fields) = True"

text \<open>\<open>a || b\<close>\<close>

definition js_or :: "js_val \<Rightarrow> js_val \<Rightarrow> js_val" where
  "js_or a b = (if truthy a then a else b)"

text \<open>\<open>a === 'literal'\<close>\<close>

definition strict_eq_str :: "js_val \<Rightarrow> string \<Rightarrow> js_val" where
  "strict_eq_str a lit = JBool (a = JStr lit)"

text \<open>
  Conversion of a decoded JSON value to a primitive (\<open>ToPrimitive\<close>, as \<open>new Date(v)\<close> and
  \<open>Array.prototype.join\<close> apply it) throws a \<open>TypeError\<close> in these cases only. An object
  decoded from JSON has no callable property of its own; the inherited \<open>valueOf\<close> returns
  the object itself, so the conversion rests on \<open>toString\<close>, and it throws when the object
  has a property \<open>toString\<close> of its own, which hides \<open>Object.prototype.toString\<close>. An array
  is converted by joining the conversions of its elements (\<open>null\<close> gives the empty string),
  so it throws when the conversion of an element does. Primitive values never throw.
\<close>

fun to_primitive_throws :: "js_val \<Rightarrow> bool" where
  "to_primitive_throws (JObj fields) = (map_of fields ''toString'' \<noteq> None)"
| "to_primitive_throws (JArr xs) = list_ex to_primitive_throws xs"
| "to_primitive_throws v = False"

section \<open>Fallback synthesis (Charts component, generateDataFromStats)\<close>

record local_stats =
  totalLogs :: nat
  normalCount :: nat
  suspiciousCount :: nat

record timeline =
  timestamps :: "string list"
  normal_counts :: "js_number list"
  anomaly_counts :: "js_number list"

record threat_cats =
  categories :: "string list"
  counts :: "js_number list"

record hourly =
  time_periods :: "string list"
  threat_counts :: "js_number list"

record generated_chart =
  timeline_data :: timeline
  threat_categories :: threat_cats
  hourly_patterns :: hourly
  data_source :: string

text \<open>
  \<^verbatim>\<open>
  const baseAnomalyRate = currentStats.totalLogs > 0 ?
      (currentStats.suspiciousCount / currentStats.totalLogs) : 0.02;
  \<close>
\<close>

definition baseAnomalyRate :: "local_stats \<Rightarrow> js_number" where
  "baseAnomalyRate currentStats =
     (if 0 < totalLogs currentStats
      then js_div (of_nat (suspiciousCount currentStats)) (of_nat (totalLogs currentStats))
      else to_double (2 / 100))"

text \<open>
  The loop \<open>for (let i = 9; i >= 0; i--)\<close>, one iteration per equation: the time value
  \<open>now - i * 2 * 60 * 1000\<close> (milliseconds; exact, time values are integers below \<open>2^53\<close>) is
  formatted by \<open>toLocaleTimeString([], {hour: '2-digit', minute: '2-digit'})\<close>, which depends
  on the browser's locale and time zone and is the parameter \<open>fmt\<close>. Iteration \<open>i = 0\<close> pushes
  the counters themselves, the others push \<open>Math.floor((counter || 0) / 10)\<close>.
\<close>

fun timeline_loop :: "(int \<Rightarrow> string) \<Rightarrow> int \<Rightarrow> local_stats \<Rightarrow> nat \<Rightarrow> timeline \<Rightarrow> timeline" where
  "timeline_loop fmt now currentStats 0 acc =
     \<lparr> timestamps = timestamps acc @ [fmt (now - 0 * 2 * 60 * 1000)],
       normal_counts = normal_counts acc @ [or_zero (of_nat (normalCount currentStats))],
       anomaly_counts = anomaly_counts acc @ [or_zero (of_nat (suspiciousCount currentStats))] \<rparr>"
| "timeline_loop fmt now currentStats (Suc i) acc =
     timeline_loop fmt now currentStats i
       \<lparr> timestamps = timestamps acc @ [fmt (now - int (Suc i) * 2 * 60 * 1000)],
         normal_counts = normal_counts acc
            @ [Math_floor (js_div (or_zero (of_nat (normalCount currentStats))) 10)],
         anomaly_counts = anomaly_counts acc
            @ [Math_floor (js_div (or_zero (of_nat (suspiciousCount currentStats))) 10)] \<rparr>"

definition totalThreats :: "local_stats \<Rightarrow> js_number" where
  "totalThreats currentStats = Math_max (of_nat (suspiciousCount currentStats)) 1"

definition generateDataFromStats :: "(int \<Rightarrow> string) \<Rightarrow> int \<Rightarrow> local_stats \<Rightarrow> generated_chart" where
  "generateDataFromStats fmt now currentStats =
     \<lparr> timeline_data =
         timeline_loop fmt now currentStats 9
           \<lparr> timestamps = [], normal_counts = [], anomaly_counts = [] \<rparr>,
       threat_categories =
         \<lparr> categories = [''Failed Authentication'', ''Off-Hours Activity'',
                         ''External Access'', ''System Anomalies''],
           counts = [Math_ceil (js_mul (totalThreats currentStats) (to_double (4 / 10))),
                     Math_ceil (js_mul (totalThreats currentStats) (to_double (3 / 10))),
                     Math_ceil (js_mul (totalThreats currentStats) (to_double (2 / 10))),
                     Math_ceil (js_mul (totalThreats currentStats) (to_double (1 / 10)))] \<rparr>,
       hourly_patterns =
         \<lparr> time_periods = [''00-03'', ''03-06'', ''06-09'', ''09-12'',
                           ''12-15'', ''15-18'', ''18-21'', ''21-24''],
           threat_counts =
             [Math_ceil (js_mul (baseAnomalyRate currentStats) 12),
              Math_ceil (js_mul (baseAnomalyRate currentStats) 8),
              Math_ceil (js_mul (baseAnomalyRate currentStats) 3),
              Math_ceil (js_mul (baseAnomalyRate currentStats) 2),
              Math_ceil (js_mul (baseAnomalyRate currentStats) 1),
              Math_ceil (js_mul (baseAnomalyRate currentStats) 2),
              Math_ceil (js_mul (baseAnomalyRate currentStats) 4),
              Math_ceil (js_mul (baseAnomalyRate currentStats) 6)] \<rparr>,
       data_source = ''generated_from_stats'' \<rparr>"

text \<open>
  One instance of the formatter, for concrete runs: a browser in time zone UTC whose locale
  writes the time as two-digit hour, colon, two-digit minute on a 24-hour clock.
\<close>

definition two_digits :: "int \<Rightarrow> string" where
  "two_digits n = [''0123456789'' ! nat (n div 10), ''0123456789'' ! nat (n mod 10)]"

definition hh_mm_utc :: "int \<Rightarrow> string" where
  "hh_mm_utc t = two_digits (t div 3600000 mod 24) @ '':'' @ two_digits (t div 60000 mod 60)"

text \<open>
  Two LocalStats values for concrete runs: the initial \<open>useState\<close> value of the parent, and
  the LocalStats of Scenario A of the specification.
\<close>

definition no_stats :: local_stats where
  "no_stats = \<lparr> totalLogs = 0, normalCount = 0, suspiciousCount = 0 \<rparr>"

definition scenario_A_stats :: local_stats where
  "scenario_A_stats = \<lparr> totalLogs = 100, normalCount = 90, suspiciousCount = 10 \<rparr>"

section \<open>The specification's formulas for the synthesized counts\<close>

text \<open>
  The specification's formulas, in exact arithmetic: counts \<open>ceil(totalThreats * w)\<close> for the
  weights \<open>[0.4, 0.3, 0.2, 0.1]\<close> with \<open>totalThreats = max(suspiciousCount, 1)\<close>, and hourly
  counts \<open>ceil(baseRate * multiplier)\<close> for the multipliers \<open>[12, 8, 3, 2, 1, 2, 4, 6]\<close> with
  \<open>baseRate = suspiciousCount / totalLogs\<close> if \<open>totalLogs > 0\<close>, else \<open>0.02\<close>.
\<close>

definition spec_category_counts :: "local_stats \<Rightarrow> rat list" where
  "spec_category_counts l =
     map (\<lambda>w. of_int \<lceil>(of_nat (max (suspiciousCount l) 1) :: rat) * w\<rceil>)
       [4 / 10, 3 / 10, 2 / 10, 1 / 10]"

definition spec_base_rate :: "local_stats \<Rightarrow> rat" where
  "spec_base_rate l =
     (if 0 < totalLogs l then of_nat (suspiciousCount l) / of_nat (totalLogs l) else 2 / 100)"

definition spec_hourly_counts :: "local_stats \<Rightarrow> rat list" where
  "spec_hourly_counts l = map (\<lambda>m. of_int \<lceil>spec_base_rate l * m\<rceil>) [12, 8, 3, 2, 1, 2, 4, 6]"

section \<open>Alert log (App.jsx, addAlert)\<close>

text \<open>
  \<^verbatim>\<open>
  const addAlert = (type, message) => {
    const alert = { id: Date.now(), type, message,
                    timestamp: new Date().toLocaleTimeString() };
    setAlerts(prev => [alert, ...prev.slice(0, 4)]);
  };
  \<close>
  The clock is read twice (\<open>Date.now()\<close> and \<open>new Date()\<close>); both readings are inputs
  of the model, in milliseconds since the epoch. \<open>toLocaleTimeString\<close> depends on the
  browser's locale and time zone and is a parameter.
\<close>

record alert =
  alert_id :: int
  alert_type :: string
  alert_message :: string
  alert_timestamp :: string

record alert_call =
  call_type :: string
  call_message :: string
  call_date_now :: int
  call_new_date :: int

definition make_alert :: "(int \<Rightarrow> string) \<Rightarrow> alert_call \<Rightarrow> alert" where
  "make_alert toLocaleTimeString c =
     \<lparr> alert_id = call_date_now c,
       alert_type = call_type c,
       alert_message = call_message c,
       alert_timestamp = toLocaleTimeString (call_new_date c) \<rparr>"

text \<open>\<open>prev.slice(0, 4)\<close> is the first four entries of \<open>prev\<close> (all of them when there are fewer).\<close>

definition addAlert :: "(int \<Rightarrow> string) \<Rightarrow> alert_call \<Rightarrow> alert list \<Rightarrow> alert list" where
  "addAlert toLocaleTimeString c prev = make_alert toLocaleTimeString c # take 4 prev"

text \<open>The log after a sequence of calls, starting from \<open>useState([])\<close>; calls in order of arrival.\<close>

definition alerts_after :: "(int \<Rightarrow> string) \<Rightarrow> alert_call list \<Rightarrow> alert list" where
  "alerts_after toLocaleTimeString cs = foldl (\<lambda>log c. addAlert toLocaleTimeString c log) [] cs"

section \<open>Charts component: state, pulls and effects\<close>

text \<open>
  The state of the component is the five \<open>useState\<close> cells, the \<open>stats\<close> prop of the latest
  render, and two things the closures of the source hold:
  \<^item> \<open>stats_first_render\<close>: the mount effect has the dependency list \<open>[]\<close>, so the function
    \<open>fetchChartData\<close> it calls and hands to \<open>setInterval\<close> is the one created by the first
    render, and the \<open>stats\<close> that function reads is the prop of the first render;
  \<^item> \<open>in_flight\<close>: one entry per call of \<open>fetchChartData\<close> suspended at \<open>await fetch(...)\<close>,
    holding the \<open>stats\<close> its closure captured.
  \<open>chartData\<close> holds whatever \<open>setChartData\<close> received: the decoded response or a generated
  dataset; \<open>useState(null)\<close> is \<open>ServerData JNull\<close>.
\<close>

datatype chart = ServerData js_val | GeneratedData generated_chart

datatype date_value = DateFromValue js_val | DateAt int

record charts_state =
  chartData :: chart
  lastUpdated :: "date_value option"
  isLoading :: bool
  connectionStatus :: string
  useSessionData :: bool
  stats :: local_stats
  stats_first_render :: local_stats
  in_flight :: "local_stats list"

text \<open>What \<open>fetch\<close>, the \<open>response.ok\<close> test and \<open>response.json()\<close> come to.\<close>

datatype fetch_outcome =
    NetworkError
  | HttpNotOk nat
  | BodyNotJson
  | Json js_val

text \<open>
  \<^verbatim>\<open>
  const fetchChartData = async () => {
      try {
          setIsLoading(true);
          const response = await fetch('http://localhost:8000/real-time-chart-data');
          if (!response.ok) { throw new Error(...); }
          const data = await response.json();
          setChartData(data);
          setLastUpdated(new Date(data.last_updated));
          setConnectionStatus('connected');
          setUseSessionData(true);
      } catch (error) {
          setConnectionStatus('error');
          setUseSessionData(false);
          // Fallback to generate data based on current stats
          setChartData(generateDataFromStats(stats));
      } finally {
          setIsLoading(false);
      }
  };
  \<close>
  \<open>fetchChartData\<close> up to its first \<open>await\<close>: \<open>setIsLoading(true)\<close>, then the request is sent.
\<close>

definition fetchChartData_start :: "local_stats \<Rightarrow> charts_state \<Rightarrow> charts_state" where
  "fetchChartData_start captured s =
     s\<lparr> isLoading := True, in_flight := in_flight s @ [captured] \<rparr>"

text \<open>
  \<open>new Date(v)\<close> on a decoded JSON value: the value is converted to a primitive, which can
  throw; the primitive then gives a date (an invalid one when it does not parse), kept here
  as the value it was made from.
\<close>

definition new_Date :: "js_val \<Rightarrow> js_error + date_value" where
  "new_Date v = (if to_primitive_throws v then Inl TypeError else Inr (DateFromValue v))"

text \<open>
  The \<open>try\<close> block after the request settles. The result is the state and the exception
  thrown, if any. After \<open>setChartData(data)\<close>, the expression \<open>new Date(data.last_updated)\<close>
  throws a \<open>TypeError\<close> when \<open>data\<close> is \<open>null\<close> (the property access) and when
  \<open>data.last_updated\<close> cannot be converted to a primitive.
\<close>

definition fetchChartData_try :: "fetch_outcome \<Rightarrow> charts_state \<Rightarrow> charts_state \<times> js_error option" where
  "fetchChartData_try outcome s =
     (case outcome of
        NetworkError \<Rightarrow> (s, Some TypeError)
      | HttpNotOk status \<Rightarrow> (s, Some HttpError)
      | BodyNotJson \<Rightarrow> (s, Some SyntaxError)
      | Json data \<Rightarrow>
          (let s1 = s\<lparr> chartData := ServerData data \<rparr> in
           case get_prop data ''last_updated'' of
             Inl e \<Rightarrow> (s1, Some e)
           | Inr v \<Rightarrow>
               (case new_Date v of
                  Inl e \<Rightarrow> (s1, Some e)
                | Inr d \<Rightarrow>
                    (s1\<lparr> lastUpdated := Some d,
                         connectionStatus := ''connected'',
                         useSessionData := True \<rparr>, None))))"

text \<open>The \<open>catch\<close> block; \<open>stats\<close> is the variable of the closure that issued the pull.\<close>

definition fetchChartData_catch :: "(int \<Rightarrow> string) \<Rightarrow> int \<Rightarrow> local_stats \<Rightarrow> charts_state \<Rightarrow> charts_state" where
  "fetchChartData_catch fmt now captured s =
     s\<lparr> connectionStatus := ''error'',
        useSessionData := False,
        chartData := GeneratedData (generateDataFromStats fmt now captured) \<rparr>"

definition fetchChartData_settle ::
    "(int \<Rightarrow> string) \<Rightarrow> int \<Rightarrow> local_stats \<Rightarrow> fetch_outcome \<Rightarrow> charts_state \<Rightarrow> charts_state" where
  "fetchChartData_settle fmt now captured outcome s =
     (let (s1, thrown) = fetchChartData_try outcome s;
          s2 = (case thrown of None \<Rightarrow> s1 | Some e \<Rightarrow> fetchChartData_catch fmt now captured s1)
      in s2\<lparr> isLoading := False \<rparr>)"

text \<open>
  \<^verbatim>\<open>
  useEffect(() => {
      if (!useSessionData && stats) {
          setChartData(generateDataFromStats(stats));
          setLastUpdated(new Date());
      }
  }, [stats, useSessionData]);
  \<close>
  The effect with dependencies \<open>[stats, useSessionData]\<close>; the prop \<open>stats\<close> is always an
  object, so \<open>!useSessionData && stats\<close> is \<open>!useSessionData\<close>.
\<close>

definition stats_effect :: "(int \<Rightarrow> string) \<Rightarrow> int \<Rightarrow> charts_state \<Rightarrow> charts_state" where
  "stats_effect fmt now s =
     (if \<not> useSessionData s
      then s\<lparr> chartData := GeneratedData (generateDataFromStats fmt now (stats s)),
              lastUpdated := Some (DateAt now) \<rparr>
      else s)"

text \<open>\<open>!chartData\<close>\<close>

fun chart_truthy :: "chart \<Rightarrow> bool" where
  "chart_truthy (ServerData v) = truthy v"
| "chart_truthy (GeneratedData g) = True"

text \<open>
  The Refresh button exists only when the component does not render the spinner
  (\<open>isLoading || !chartData\<close>), and it is \<open>disabled={isLoading}\<close>.
\<close>

definition refresh_clickable :: "charts_state \<Rightarrow> bool" where
  "refresh_clickable s = (\<not> (isLoading s \<or> \<not> chart_truthy (chartData s)) \<and> \<not> isLoading s)"

text \<open>
  The events of the component. \<open>PullSettled i outcome t t'\<close>: the \<open>i\<close>-th pull in flight
  settles with \<open>outcome\<close>; \<open>t\<close> is the clock when the handler runs, \<open>t'\<close> the clock when the
  effects of the following render run. \<open>StatsChanged new t\<close>: the parent passes a new \<open>stats\<close>
  object; \<open>t\<close> is the clock when the effect runs. State updates of one handler are applied
  together, and an effect runs after the render when one of its dependencies changed.
\<close>

datatype event =
    TimerTick
  | ManualRefresh
  | PullSettled nat fetch_outcome int int
  | StatsChanged local_stats int

definition remove_nth :: "nat \<Rightarrow> 'a list \<Rightarrow> 'a list" where
  "remove_nth i xs = take i xs @ drop (Suc i) xs"

fun step :: "(int \<Rightarrow> string) \<Rightarrow> charts_state \<Rightarrow> event \<Rightarrow> charts_state" where
  "step fmt s TimerTick = fetchChartData_start (stats_first_render s) s"
| "step fmt s ManualRefresh =
     (if refresh_clickable s then fetchChartData_start (stats s) s else s)"
| "step fmt s (PullSettled i outcome t t') =
     (if i < length (in_flight s)
      then (let s1 = fetchChartData_settle fmt t (in_flight s ! i) outcome
                       (s\<lparr> in_flight := remove_nth i (in_flight s) \<rparr>)
            in if useSessionData s1 \<noteq> useSessionData s then stats_effect fmt t' s1 else s1)
      else s)"
| "step fmt s (StatsChanged new t) = stats_effect fmt t (s\<lparr> stats := new \<rparr>)"

text \<open>
  The state after the first render and its effects: the mount effect has called
  \<open>fetchChartData()\<close> and started the 30-second interval; the other effect did nothing,
  \<open>useSessionData\<close> being \<open>true\<close>.
\<close>

definition charts_mount :: "local_stats \<Rightarrow> charts_state" where
  "charts_mount stats0 =
     fetchChartData_start stats0
       \<lparr> chartData = ServerData JNull,
         lastUpdated = None,
         isLoading = True,
         connectionStatus = ''connecting'',
         useSessionData = True,
         stats = stats0,
         stats_first_render = stats0,
         in_flight = [] \<rparr>"

definition run :: "(int \<Rightarrow> string) \<Rightarrow> charts_state \<Rightarrow> event list \<Rightarrow> charts_state" where
  "run fmt s evs = foldl (step fmt) s evs"

text \<open>A pull fails when its handler reaches the \<open>catch\<close> block.\<close>

definition pull_fails :: "fetch_outcome \<Rightarrow> bool" where
  "pull_fails outcome =
     (case outcome of
        Json data \<Rightarrow>
          (case get_prop data ''last_updated'' of
             Inl e \<Rightarrow> True
           | Inr v \<Rightarrow> to_primitive_throws v)
      | _ \<Rightarrow> True)"

text \<open>
  A decoded response of the pull endpoint, as in Scenario B of the specification, with every
  field the component reads when it renders.
\<close>

definition scenario_B_payload :: js_val where
  "scenario_B_payload =
     JObj [(''last_updated'', JStr ''2024-05-01T10:00:00''),
           (''session_stats'',
              JObj [(''total_logs_processed'', JNum 50),
                    (''total_anomalies_detected'', JNum 5),
                    (''normal_activities'', JNum 45),
                    (''threat_rate_percent'', JNum 10),
                    (''session_id'', JStr ''session_1'')]),
           (''timeline_data'',
              JObj [(''timestamps'', JArr [JStr ''09:56'', JStr ''09:58'', JStr ''10:00'']),
                    (''normal_counts'', JArr [JNum 10, JNum 15, JNum 20]),
                    (''anomaly_counts'', JArr [JNum 1, JNum 2, JNum 2])]),
           (''threat_categories'',
              JObj [(''categories'', JArr [JStr ''Failed Authentication'', JStr ''External Access'']),
                    (''counts'', JArr [JNum 3, JNum 2])]),
           (''hourly_patterns'',
              JObj [(''time_periods'',
                       JArr [JStr ''00-03'', JStr ''03-06'', JStr ''06-09'', JStr ''09-12'',
                             JStr ''12-15'', JStr ''15-18'', JStr ''18-21'', JStr ''21-24'']),
                    (''threat_counts'',
                       JArr [JNum 0, JNum 0, JNum 0, JNum 5, JNum 0, JNum 0, JNum 0, JNum 0])])]"

text \<open>
  A run after the mount: the mount pull fails, a detection test replaces the LocalStats, the
  timer ticks, and the pull of that tick fails with status 500.
\<close>

definition stale_run :: "event list" where
  "stale_run =
     [PullSettled 0 NetworkError 1000 1001,
      StatsChanged scenario_A_stats 5000,
      TimerTick,
      PullSettled 0 (HttpNotOk 500) 31000 31001]"

section \<open>Push channel (App.jsx, ws.onmessage)\<close>

text \<open>
  \<^verbatim>\<open>
  ws.onmessage = (event) => {
    const message = JSON.parse(event.data);
    if (message.type === 'session_detection_complete' ||
        message.type === 'periodic_update' ||
        message.type === 'stats_update') {
      fetchSessionStats();
    }
  };
  \<close>
  \<open>event.data\<close> is represented by what \<open>JSON.parse\<close> makes of it: a \<open>SyntaxError\<close> or a value.
  \<open>fetchSessionStats\<close> sends its request at once, with no test of any state; the handler's
  result is the exception that leaves it, or the number of pulls it issued.
\<close>

datatype message_data = NotJson | Parsed js_val

definition onmessage :: "message_data \<Rightarrow> js_error + nat" where
  "onmessage data =
     (case data of
        NotJson \<Rightarrow> Inl SyntaxError
      | Parsed message \<Rightarrow>
          (case get_prop message ''type'' of
             Inl e \<Rightarrow> Inl e
           | Inr ty \<Rightarrow>
               (if ty = JStr ''session_detection_complete''
                   \<or> ty = JStr ''periodic_update''
                   \<or> ty = JStr ''stats_update''
                then Inr 1 else Inr 0)))"

section \<open>Status classification (App.jsx, checkSystemStatus)\<close>

text \<open>
  \<^verbatim>\<open>
  const checkSystemStatus = async () => {
    try {
      const advancedStatus = await apiService.getAdvancedStatus();
      if (advancedStatus.real_data_enabled !== undefined) {
        setSystemStatus({
          online: true,
          modelTrained: advancedStatus.model_trained || false,
          realDataEnabled: advancedStatus.real_data_enabled || false,
          version: advancedStatus.version || '2.0.0'
        });
        return;
      }
    } catch (error) { }
    try {
      const status = await apiService.getStatus();
      setSystemStatus({
        online: status.system_status === 'healthy' || true,
        modelTrained: status.model_trained || false,
        realDataEnabled: false,
        version: '1.0.0'
      });
    } catch (error) {
      setSystemStatus({ online: false, modelTrained: false,
                        realDataEnabled: false, version: 'Unknown' });
    }
  };
  \<close>
  \<open>apiService.request\<close> throws on a transport failure, on a status that is not ok and on a
  body that is not JSON; otherwise it returns the decoded body.
\<close>

datatype request_outcome = Rejected | Resolved js_val

record system_status =
  online :: js_val
  modelTrained :: js_val
  realDataEnabled :: js_val
  version :: js_val

text \<open>The first \<open>try\<close>: the new status when the advanced probe classifies, else fall through.\<close>

definition advanced_probe :: "request_outcome \<Rightarrow> system_status option" where
  "advanced_probe advanced =
     (case advanced of
        Rejected \<Rightarrow> None
      | Resolved advancedStatus \<Rightarrow>
          (case get_prop advancedStatus ''real_data_enabled'' of
             Inl e \<Rightarrow> None
           | Inr rde \<Rightarrow>
               (if rde \<noteq> JUndefined
                then (case (get_prop advancedStatus ''model_trained'',
                            get_prop advancedStatus ''version'') of
                        (Inr mt, Inr ver) \<Rightarrow>
                          Some \<lparr> online = JBool True,
                                 modelTrained = js_or mt (JBool False),
                                 realDataEnabled = js_or rde (JBool False),
                                 version = js_or ver (JStr ''2.0.0'') \<rparr>
                      | _ \<Rightarrow> None)
                else None)))"

text \<open>The second \<open>try\<close> and its \<open>catch\<close>.\<close>

definition basic_probe :: "request_outcome \<Rightarrow> system_status" where
  "basic_probe basic =
     (let offline = \<lparr> online = JBool False, modelTrained = JBool False,
                       realDataEnabled = JBool False, version = JStr ''Unknown'' \<rparr>
      in case basic of
           Rejected \<Rightarrow> offline
         | Resolved status \<Rightarrow>
             (case (get_prop status ''system_status'', get_prop status ''model_trained'') of
                (Inr ss, Inr mt) \<Rightarrow>
                  \<lparr> online = js_or (strict_eq_str ss ''healthy'') (JBool True),
                    modelTrained = js_or mt (JBool False),
                    realDataEnabled = JBool False,
                    version = JStr ''1.0.0'' \<rparr>
              | _ \<Rightarrow> offline))"

text \<open>\<open>checkSystemStatus\<close>: the value passed to \<open>setSystemStatus\<close>, from the outcomes of the two requests.\<close>

definition checkSystemStatus :: "request_outcome \<Rightarrow> request_outcome \<Rightarrow> system_status" where
  "checkSystemStatus advanced basic =
     (case advanced_probe advanced of
        Some st \<Rightarrow> st
      | None \<Rightarrow> basic_probe basic)"

section \<open>Rounding to binary64: error bound, exact integers, exact ceilings\<close>

lemma ilog2_bounds:
  assumes "0 < x"
  shows "2 powi (ilog2 x) \<le> x \<and> x < 2 powi (ilog2 x + 1)"
proof -
  obtain p q where pq: "quotient_of x = (p, q)" by (cases "quotient_of x")
  have q: "0 < q" using pq quotient_of_denom_pos by blast
  have x: "x = of_int p / of_int q" using pq quotient_of_div by blast
  have p: "0 < p" using assms q x
    by (simp add: zero_less_divide_iff)
  define bp bq where "bp = bitlen p" and "bq = bitlen q"
  have bp: "2 ^ nat (bp - 1) \<le> p" "p < 2 ^ nat bp" using bitlen_bounds[OF p] by (auto simp: bp_def)
  have bq: "2 ^ nat (bq - 1) \<le> q" "q < 2 ^ nat bq" using bitlen_bounds[OF q] by (auto simp: bq_def)
  have bp1: "1 \<le> bp" using p bitlen_eq_zero_iff[of p] bitlen_nonneg[of p] by (auto simp: bp_def)
  have bq1: "1 \<le> bq" using q bitlen_eq_zero_iff[of q] bitlen_nonneg[of q] by (auto simp: bq_def)
  have P1: "(2::rat) powi (bp - 1) \<le> of_int p"
  proof -
    have "(of_int (2 ^ nat (bp - 1)) :: rat) \<le> of_int p" using bp(1) of_int_le_iff by blast
    then show ?thesis using bp1 by (simp add: power_int_def)
  qed
  have P2: "of_int p < (2::rat) powi bp"
  proof -
    have "(of_int p :: rat) < of_int (2 ^ nat bp)" using bp(2) of_int_less_iff by blast
    then show ?thesis using bp1 by (simp add: power_int_def)
  qed
  have Q1: "(2::rat) powi (bq - 1) \<le> of_int q"
  proof -
    have "(of_int (2 ^ nat (bq - 1)) :: rat) \<le> of_int q" using bq(1) of_int_le_iff by blast
    then show ?thesis using bq1 by (simp add: power_int_def)
  qed
  have Q2: "of_int q < (2::rat) powi bq"
  proof -
    have "(of_int q :: rat) < of_int (2 ^ nat bq)" using bq(2) of_int_less_iff by blast
    then show ?thesis using bq1 by (simp add: power_int_def)
  qed
  have qpos: "(0::rat) < of_int q" using q by simp
  have up: "x < 2 powi (bp - bq + 1)"
  proof -
    have "of_int p * (2::rat) powi (bq - 1) \<le> of_int p * of_int q"
      using Q1 p by (intro mult_left_mono) auto
    also have "\<dots> < 2 powi bp * of_int q"
      using P2 qpos by (intro mult_strict_right_mono) auto
    finally have "of_int p * (2::rat) powi (bq - 1) < 2 powi bp * of_int q" .
    then have "x * 2 powi (bq - 1) < (2::rat) powi bp"
      using qpos by (simp add: x field_simps)
    then have "x < 2 powi bp / 2 powi (bq - 1)"
      by (simp add: pos_less_divide_eq)
    moreover have "(2::rat) powi (bp - bq + 1) = 2 powi bp / 2 powi (bq - 1)"
    proof -
      have e: "bp - bq + 1 = bp - (bq - 1)" by simp
      show ?thesis unfolding e by (rule power_int_diff) simp
    qed
    ultimately show ?thesis by simp
  qed
  have lo: "2 powi (bp - bq - 1) < x"
  proof -
    have "(2::rat) powi (bp - 1) * of_int q \<le> of_int p * of_int q"
      using P1 qpos by (intro mult_right_mono) auto
    also have "\<dots> < of_int p * 2 powi bq"
      using Q2 p by (intro mult_strict_left_mono) auto
    finally have "(2::rat) powi (bp - 1) * of_int q < of_int p * 2 powi bq" .
    then have "2 powi (bp - 1) / 2 powi bq < x"
      using qpos by (simp add: x field_simps)
    moreover have "(2::rat) powi (bp - bq - 1) = 2 powi (bp - 1) / 2 powi bq"
    proof -
      have e: "bp - bq - 1 = bp - 1 - bq" by simp
      show ?thesis unfolding e by (rule power_int_diff) simp
    qed
    ultimately show ?thesis by simp
  qed
  have il: "ilog2 x = (if 2 powi (bp - bq) \<le> x then bp - bq else bp - bq - 1)"
    by (simp add: ilog2_def pq bp_def bq_def Let_def)
  show ?thesis
  proof (cases "2 powi (bp - bq) \<le> x")
    case True
    then show ?thesis using il up by simp
  next
    case False
    then show ?thesis using il lo by (simp add: less_eq_rat_def)
  qed
qed

lemma round_half_even_err: "\<bar>of_int (round_half_even y) - y\<bar> \<le> 1 / 2"
proof -
  have "of_int \<lfloor>y\<rfloor> \<le> y" "y < of_int \<lfloor>y\<rfloor> + 1" by linarith+
  then show ?thesis
    by (auto simp: round_half_even_def Let_def abs_le_iff)
qed

lemma round_half_even_of_int: "round_half_even (of_int k) = k"
  by (simp add: round_half_even_def)

lemma to_double_pos_eq:
  "0 < x \<Longrightarrow> to_double x = of_int (round_half_even (x / 2 powi (ilog2 x - 52))) * 2 powi (ilog2 x - 52)"
  by (simp add: to_double_def Let_def)

lemma to_double_err:
  assumes "0 < x"
  shows "\<bar>to_double x - x\<bar> \<le> x / 2 ^ 53"
proof -
  define u :: rat where "u = 2 powi (ilog2 x - 52)"
  have u: "0 < u" by (simp add: u_def)
  have "\<bar>of_int (round_half_even (x / u)) - x / u\<bar> \<le> 1 / 2"
    by (rule round_half_even_err)
  then have "\<bar>of_int (round_half_even (x / u)) - x / u\<bar> * u \<le> 1 / 2 * u"
    using u by (intro mult_right_mono) auto
  moreover have "(of_int (round_half_even (x / u)) - x / u) * u = of_int (round_half_even (x / u)) * u - x"
    using u by (simp add: algebra_simps)
  then have "\<bar>of_int (round_half_even (x / u)) * u - x\<bar> = \<bar>of_int (round_half_even (x / u)) - x / u\<bar> * u"
    using u by (metis abs_mult abs_of_pos)
  ultimately have "\<bar>of_int (round_half_even (x / u)) * u - x\<bar> \<le> u / 2"
    by simp
  then have 1: "\<bar>to_double x - x\<bar> \<le> u / 2"
    using assms by (simp add: to_double_pos_eq u_def)
  have "u = 2 powi (ilog2 x) / 2 powi 52"
    unfolding u_def by (rule power_int_diff) simp
  then have "u / 2 = 2 powi (ilog2 x) / 2 ^ 53" by simp
  also have "\<dots> \<le> x / 2 ^ 53"
    using ilog2_bounds[OF assms] by (simp add: divide_right_mono)
  finally show ?thesis using 1 by linarith
qed

lemma to_double_pos:
  assumes "0 < x"
  shows "0 < to_double x"
proof -
  have "\<bar>to_double x - x\<bar> \<le> x / 2 ^ 53" by (rule to_double_err[OF assms])
  moreover have "x / 2 ^ 53 < x" using assms by (simp add: field_simps)
  ultimately show ?thesis by linarith
qed

lemma ilog2_less:
  assumes "0 < x" "x < 2 powi k"
  shows "ilog2 x < k"
proof (rule ccontr)
  assume "\<not> ilog2 x < k"
  then have "k \<le> ilog2 x" by simp
  then have "(2::rat) powi k \<le> 2 powi (ilog2 x)" by (intro power_int_increasing) auto
  with ilog2_bounds[OF assms(1)] assms(2) show False by linarith
qed

lemma to_double_of_nat:
  assumes "n < 2 ^ 53"
  shows "to_double (of_nat n) = of_nat n"
proof (cases "n = 0")
  case True
  then show ?thesis by (simp add: to_double_def)
next
  case False
  define x :: rat where "x = of_nat n"
  have x: "0 < x" using False by (simp add: x_def)
  have "x < 2 ^ 53" using assms unfolding x_def
    by (metis of_nat_less_iff of_nat_numeral of_nat_power)
  then have "x < 2 powi 53" by simp
  then have e: "ilog2 x \<le> 52" using ilog2_less[OF x] by fastforce
  define k where "k = nat (52 - ilog2 x)"
  have u: "(2::rat) powi (ilog2 x - 52) = 1 / 2 ^ k"
  proof -
    have "ilog2 x - 52 = - int k" using e by (simp add: k_def)
    moreover have "(2::rat) powi (- int k) = 1 / 2 ^ k"
      by (simp add: power_int_minus inverse_eq_divide)
    ultimately show ?thesis by simp
  qed
  have "x / (1 / 2 ^ k) = of_int (int n * 2 ^ k)" by (simp add: x_def)
  then have "round_half_even (x / (1 / 2 ^ k)) = int n * 2 ^ k"
    using round_half_even_of_int by metis
  then show ?thesis using x u by (simp add: to_double_pos_eq x_def)
qed

lemma floor_to_double_div10:
  assumes "n < 2 ^ 53"
  shows "\<lfloor>to_double (of_nat n / 10)\<rfloor> = int (n div 10)"
proof (cases "n mod 10 = 0")
  case True
  then have "n = 10 * (n div 10)" by presburger
  then have "(of_nat n :: rat) = 10 * of_nat (n div 10)"
    by (metis of_nat_mult of_nat_numeral)
  then have "(of_nat n :: rat) / 10 = of_nat (n div 10)" by simp
  moreover have "n div 10 < 2 ^ 53" using assms by (simp add: div_le_dividend le_less_trans)
  ultimately show ?thesis by (simp add: to_double_of_nat)
next
  case False
  define x :: rat where "x = of_nat n / 10"
  define q where "q = n div 10"
  define r where "r = n mod 10"
  have n: "n = 10 * q + r" by (simp add: q_def r_def)
  have r: "1 \<le> r" "r \<le> 9" using False by (auto simp: r_def) 
  have xq: "x = of_nat q + of_nat r / 10" by (simp add: x_def n field_simps)
  have x: "0 < x" using r by (simp add: xq add_nonneg_pos)
  have lo: "of_nat q + 1 / 10 \<le> x" using r by (simp add: xq)
  have hi: "x \<le> of_nat q + 9 / 10" using r by (simp add: xq)
  have "(of_nat n :: rat) < 2 ^ 53" using assms
    by (metis of_nat_less_iff of_nat_numeral of_nat_power)
  then have "x / 2 ^ 53 < 1 / 10" by (simp add: x_def)
  with to_double_err[OF x] have "\<bar>to_double x - x\<bar> < 1 / 10" by linarith
  with lo hi have "of_nat q \<le> to_double x" "to_double x < of_nat q + 1" by linarith+
  then have "\<lfloor>to_double x\<rfloor> = int q" by (simp add: floor_unique)
  then show ?thesis by (simp add: x_def q_def)
qed

lemma ilog2_unique:
  assumes "0 < x" and "2 powi e \<le> x" and "x < 2 powi (e + 1)"
  shows "ilog2 x = e"
proof -
  have b: "2 powi (ilog2 x) \<le> x" "x < 2 powi (ilog2 x + 1)"
    using ilog2_bounds[OF assms(1)] by simp_all
  have "ilog2 x < e + 1" using ilog2_less[OF assms(1) assms(3)] .
  moreover have "e < ilog2 x + 1"
  proof (rule ccontr)
    assume "\<not> e < ilog2 x + 1"
    then have "ilog2 x + 1 \<le> e" by simp
    then have "(2::rat) powi (ilog2 x + 1) \<le> 2 powi e" by (intro power_int_increasing) auto
    with b(2) assms(2) show False by linarith
  qed
  ultimately show ?thesis by linarith
qed

lemma round_half_even_near:
  assumes "\<bar>d\<bar> < 1 / 2 \<or> (even M \<and> \<bar>d\<bar> \<le> 1 / 2)"
  shows "round_half_even (of_int M + d) = M"
proof -
  have d: "- (1 / 2) \<le> d" "d \<le> 1 / 2" using assms by (auto simp: abs_le_iff abs_less_iff)
  show ?thesis
  proof (cases "0 \<le> d")
    case True
    then have f: "\<lfloor>of_int M + d\<rfloor> = M" using d by (simp add: floor_unique)
    show ?thesis using assms True d unfolding round_half_even_def Let_def f by auto
  next
    case False
    then have f: "\<lfloor>of_int M + d\<rfloor> = M - 1" using d by (intro floor_unique) auto
    show ?thesis using assms False d unfolding round_half_even_def Let_def f by auto
  qed
qed

lemma to_double_near:
  assumes "0 < x" and "x = (of_int M + d) * 2 powi (ilog2 x - 52)"
    and "\<bar>d\<bar> < 1 / 2 \<or> (even M \<and> \<bar>d\<bar> \<le> 1 / 2)"
  shows "to_double x = of_int M * 2 powi (ilog2 x - 52)"
proof -
  define u :: rat where "u = 2 powi (ilog2 x - 52)"
  have u: "0 < u" by (simp add: u_def)
  have "x = (of_int M + d) * u" using assms(2) by (simp only: u_def)
  then have "x / u = of_int M + d" using u by (simp add: field_simps)
  then have "round_half_even (x / u) = M" using round_half_even_near[OF assms(3)] by simp
  then show ?thesis using to_double_pos_eq[OF assms(1)] by (simp add: u_def)
qed

lemma round_half_even_le:
  assumes "y \<le> of_int N"
  shows "round_half_even y \<le> N"
proof -
  have f: "\<lfloor>y\<rfloor> \<le> N" using assms by (simp add: floor_le_iff) 
  show ?thesis
  proof (cases "\<lfloor>y\<rfloor> = N")
    case True
    then have "y = of_int N" using assms by (metis floor_correct order_antisym_conv)
    then show ?thesis by (simp add: round_half_even_of_int)
  next
    case False
    then have "\<lfloor>y\<rfloor> + 1 \<le> N" using f by simp
    then show ?thesis by (auto simp: round_half_even_def Let_def)
  qed
qed

lemma ilog2_le_52:
  assumes "0 < x" and "x < 2 ^ 53"
  shows "ilog2 x \<le> 52"
proof -
  have "x < 2 powi 53" using assms(2) by simp
  then show ?thesis using ilog2_less[OF assms(1)] by fastforce
qed

lemma ulp_inverse:
  assumes "e \<le> 52"
  shows "(2::rat) powi (e - 52) = 1 / 2 ^ nat (52 - e)"
proof -
  define k where "k = nat (52 - e)"
  have ek: "e - 52 = - int k" using assms by (simp add: k_def)
  have "(2::rat) powi (- int k) = 1 / 2 ^ k"
    by (simp add: power_int_minus inverse_eq_divide)
  then show ?thesis unfolding ek k_def by simp
qed

text \<open>Rounding does not cross an integer below \<open>2^53\<close>.\<close>

lemma to_double_le_int:
  assumes "0 < x" and "x \<le> of_nat K" and "K < 2 ^ 53"
  shows "to_double x \<le> of_nat K"
proof -
  have "(of_nat K :: rat) < 2 ^ 53" using assms(3)
    by (metis of_nat_less_iff of_nat_numeral of_nat_power)
  then have e: "ilog2 x \<le> 52" using assms(1,2) by (intro ilog2_le_52) auto
  define k where "k = nat (52 - ilog2 x)"
  have u: "(2::rat) powi (ilog2 x - 52) = 1 / 2 ^ k" using ulp_inverse[OF e] by (simp add: k_def)
  have "x / (1 / 2 ^ k) \<le> of_int (int K * 2 ^ k)" using assms(2) by (simp add: mult_right_mono)
  then have "round_half_even (x / (1 / 2 ^ k)) \<le> int K * 2 ^ k" by (rule round_half_even_le)
  then have "(of_int (round_half_even (x / (1 / 2 ^ k))) :: rat) \<le> of_int (int K * 2 ^ k)"
    by (simp only: of_int_le_iff)
  then have "of_int (round_half_even (x / (1 / 2 ^ k))) * (1 / 2 ^ k) \<le> (of_nat K :: rat)"
    by (simp add: field_simps)
  then show ?thesis using to_double_pos_eq[OF assms(1)] u by simp
qed

lemma to_double_int_perturbed:
  fixes q :: nat and dl :: rat
  assumes q: "1 \<le> q" "q < 2 ^ 52" and dl: "0 \<le> dl" "dl \<le> 1 / 2 ^ 54"
  shows "to_double (of_nat q * (1 + dl)) = of_nat q"
proof -
  define x :: rat where "x = of_nat q * (1 + dl)"
  have qpos: "(0::rat) < of_nat q" using q(1) by simp
  have x: "0 < x" using qpos dl(1) by (simp add: x_def)
  have qx: "of_nat q \<le> x" using qpos dl(1) by (simp add: x_def mult_le_cancel_left1)
  have ql: "(of_nat q :: rat) < 2 ^ 52" using q(2)
    by (metis of_nat_less_iff of_nat_numeral of_nat_power)
  have "x \<le> of_nat q * (1 + 1 / 2 ^ 54)" using qpos dl(2) by (simp add: x_def)
  also have "\<dots> < 2 ^ 52 * (1 + 1 / 2 ^ 54)" using ql by simp
  also have "\<dots> < 2 ^ 53" by simp
  finally have x53: "x < 2 ^ 53" .
  define e where "e = ilog2 x"
  have e: "e \<le> 52" unfolding e_def using ilog2_le_52[OF x x53] .
  define k where "k = nat (52 - e)"
  define u :: rat where "u = 2 powi (e - 52)"
  have u: "u = 1 / 2 ^ k" unfolding u_def k_def by (rule ulp_inverse[OF e])
  have upos: "0 < u" by (simp add: u_def)
  have xe: "x < 2 powi (e + 1)" using ilog2_bounds[OF x] by (simp add: e_def)
  have u2: "u = 2 powi (e + 1) / 2 ^ 53"
  proof -
    have "e - 52 = (e + 1) - 53" by simp
    then have "(2::rat) powi (e - 52) = 2 powi (e + 1) / 2 powi 53"
      by (metis power_int_diff zero_neq_numeral)
    then show ?thesis by (simp add: u_def)
  qed
  define M where "M = int q * 2 ^ k"
  define d where "d = of_nat q * dl / u"
  have Mu: "of_int M * u = of_nat q" by (simp add: M_def u)
  have du: "d * u = of_nat q * dl" using upos by (simp add: d_def)
  have decomp: "x = (of_int M + d) * u"
    using Mu du by (simp add: x_def algebra_simps)
  have d0: "0 \<le> d" using qpos dl(1) upos by (simp add: d_def)
  have "of_nat q * dl \<le> of_nat q * (1 / 2 ^ 54)" using qpos dl(2) by (intro mult_left_mono) auto
  also have "\<dots> < 2 powi (e + 1) * (1 / 2 ^ 54)" using qx xe by (intro mult_strict_right_mono) auto
  also have "\<dots> = u / 2" by (simp add: u2)
  finally have "of_nat q * dl < u / 2" .
  then have "d < 1 / 2" using upos by (simp add: d_def field_simps)
  then have dh: "\<bar>d\<bar> < 1 / 2 \<or> (even M \<and> \<bar>d\<bar> \<le> 1 / 2)" using d0 by simp
  have "to_double x = of_int M * 2 powi (ilog2 x - 52)"
    using decomp dh by (intro to_double_near[OF x]) (simp_all add: u_def e_def)
  then show ?thesis using Mu by (simp add: u_def e_def x_def)
qed

lemma ceil_weighted:
  fixes n k :: nat and dl :: rat
  assumes n: "1 \<le> n" "n < 2 ^ 48" and k: "1 \<le> k" "k \<le> 4" and dl: "\<bar>dl\<bar> \<le> 1 / 2 ^ 54"
  shows "\<lceil>to_double (of_nat n * (of_nat k / 10 * (1 + dl)))\<rceil> = \<lceil>(of_nat (n * k) :: rat) / 10\<rceil>"
proof -
  define v :: rat where "v = of_nat (n * k) / 10"
  define x :: rat where "x = v * (1 + dl)"
  have xeq: "of_nat n * (of_nat k / 10 * (1 + dl)) = x" by (simp add: x_def v_def)
  have nk: "1 \<le> n * k" using n(1) k(1) by (simp add: Suc_le_eq)
  have "n * k \<le> n * 4" using k(2) by simp
  also have "\<dots> < 2 ^ 48 * 4" using n(2) by simp
  finally have nk50: "n * k < 2 ^ 50" by simp
  have vpos: "0 < v" using nk by (simp add: v_def)
  have "(of_nat (n * k) :: rat) < 2 ^ 50" using nk50
    by (metis of_nat_less_iff of_nat_numeral of_nat_power)
  then have v47: "v < 2 ^ 47" by (simp add: v_def)
  have dl': "- (1 / 2 ^ 54) \<le> dl" "dl \<le> 1 / 2 ^ 54" using dl by (simp_all add: abs_le_iff)
  have "0 < 1 + dl" using dl'(1) by simp
  then have xpos: "0 < x" using vpos by (simp add: x_def)
  have xv: "\<bar>x - v\<bar> \<le> v / 2 ^ 54"
  proof -
    have "x - v = v * dl" by (simp add: x_def algebra_simps)
    then have "\<bar>x - v\<bar> = v * \<bar>dl\<bar>" using vpos by (simp add: abs_mult)
    also have "\<dots> \<le> v * (1 / 2 ^ 54)" using vpos dl by (intro mult_left_mono) auto
    finally show ?thesis by simp
  qed
  have xle: "x \<le> 2 * v"
  proof -
    have "v * (1 + dl) \<le> v * 2" using vpos dl'(2) by (intro mult_left_mono) auto
    then show ?thesis by (simp add: x_def)
  qed
  have "\<bar>to_double x - x\<bar> \<le> x / 2 ^ 53" by (rule to_double_err[OF xpos])
  also have "\<dots> \<le> 2 * v / 2 ^ 53" using xle by (simp add: divide_right_mono)
  finally have fx: "\<bar>to_double x - x\<bar> \<le> v / 2 ^ 52" by simp
  have "\<bar>to_double x - v\<bar> \<le> \<bar>to_double x - x\<bar> + \<bar>x - v\<bar>" by simp
  also have "\<dots> \<le> v / 2 ^ 52 + v / 2 ^ 54" using fx xv by simp
  also have "\<dots> \<le> v / 2 ^ 51" using vpos by simp
  also have "\<dots> < 2 ^ 47 / 2 ^ 51" using v47 by (simp add: divide_strict_right_mono)
  finally have "\<bar>to_double x - v\<bar> < 1 / 16" by simp
  then have near: "v - 1 / 16 < to_double x" "to_double x < v + 1 / 16" by linarith+
  define j where "j = (n * k) div 10"
  define f where "f = (n * k) mod 10"
  have nkjf: "n * k = 10 * j + f" by (simp add: j_def f_def)
  have vjf: "v = of_nat j + of_nat f / 10" by (simp add: v_def nkjf)
  show ?thesis
  proof (cases "f = 0")
    case False
    then have f: "1 \<le> f" "f \<le> 9" by (auto simp: f_def)
    have lo: "of_nat j + 1 / 10 \<le> v" using f by (simp add: vjf)
    have hi: "v \<le> of_nat j + 9 / 10" using f by (simp add: vjf)
    have "of_int (int j + 1) - 1 < to_double x" "to_double x \<le> of_int (int j + 1)"
      using near lo hi by simp_all
    then have 1: "\<lceil>to_double x\<rceil> = int j + 1" by (rule ceiling_unique)
    have "of_int (int j + 1) - 1 < v" "v \<le> of_int (int j + 1)"
      using lo hi by simp_all
    then have 2: "\<lceil>v\<rceil> = int j + 1" by (rule ceiling_unique)
    show ?thesis unfolding xeq using 1 2 by (simp add: v_def)
  next
    case True
    then have vj: "v = of_nat j" by (simp add: vjf)
    have j1: "1 \<le> j" using vpos vj by (cases j) simp_all
    have "j \<le> n * k" by (simp add: j_def)
    then have j52: "j < 2 ^ 52" using nk50 by (simp add: order_le_less_trans less_trans)
    have up: "to_double x \<le> of_nat j"
    proof (cases "0 \<le> dl")
      case True
      have "to_double (of_nat j * (1 + dl)) = of_nat j"
        using j1 j52 True dl'(2) by (rule to_double_int_perturbed)
      then show ?thesis by (simp add: x_def vj)
    next
      case False
      then have "v * (1 + dl) \<le> v * 1" using vpos by (intro mult_left_mono) auto
      then have "x \<le> of_nat j" by (simp add: x_def vj)
      moreover have "j < 2 ^ 53" using j52 by (simp add: less_trans)
      ultimately show ?thesis using xpos by (intro to_double_le_int)
    qed
    have "of_int (int j) - 1 < to_double x" using near vj by simp
    moreover have "to_double x \<le> of_int (int j)" using up by simp
    ultimately have 1: "\<lceil>to_double x\<rceil> = int j" by (rule ceiling_unique)
    have 2: "\<lceil>v\<rceil> = int j" by (simp add: vj)
    show ?thesis unfolding xeq using 1 2 by (simp add: v_def)
  qed
qed

lemma powi2_add: "(2::rat) powi (a + b) = 2 powi a * 2 powi b"
  by (rule power_int_add) simp

lemma powi2_less_iff: "(2::rat) powi a < 2 powi b \<longleftrightarrow> a < b"
proof
  assume l: "(2::rat) powi a < 2 powi b"
  show "a < b"
  proof (rule ccontr)
    assume "\<not> a < b"
    then have "b \<le> a" by simp
    then have "(2::rat) powi b \<le> 2 powi a" by (intro power_int_increasing) auto
    with l show False by simp
  qed
next
  assume "a < b"
  then show "(2::rat) powi a < 2 powi b" by (intro power_int_strict_increasing) auto
qed

text \<open>A quotient of an integer below \<open>2^53\<close> by a power of two is a binary64 number.\<close>

lemma to_double_dyadic:
  assumes "q < 2 ^ 53"
  shows "to_double (of_nat q / 2 ^ j) = of_nat q / 2 ^ j"
proof (cases "q = 0")
  case True
  then show ?thesis by (simp add: to_double_def)
next
  case False
  define x :: rat where "x = of_nat q / 2 ^ j"
  have x: "0 < x" using False by (simp add: x_def)
  define e where "e = ilog2 x"
  have lo: "2 powi e \<le> x" using ilog2_bounds[OF x] by (simp add: e_def)
  have "(of_nat q :: rat) < 2 ^ 53" using assms
    by (metis of_nat_less_iff of_nat_numeral of_nat_power)
  then have "x * 2 ^ j < 2 ^ 53" by (simp add: x_def)
  moreover have "2 powi e * 2 ^ j \<le> x * 2 ^ j" using lo by (intro mult_right_mono) auto
  ultimately have "(2::rat) powi e * 2 ^ j < 2 ^ 53" by linarith
  then have "(2::rat) powi e * 2 powi (int j) < 2 powi 53" by simp
  then have "(2::rat) powi (e + int j) < 2 powi 53" by (simp only: powi2_add)
  then have ej: "e + int j < 53" by (simp only: powi2_less_iff)
  define K where "K = nat (52 - e - int j)"
  have K: "int K = 52 - e - int j" using ej by (simp add: K_def)
  define M where "M = int q * 2 ^ K"
  have "e - 52 = - int K + - int j" using K by simp
  then have "(2::rat) powi (e - 52) = 2 powi (- int K) * 2 powi (- int j)"
    by (simp only: powi2_add)
  then have u: "(2::rat) powi (e - 52) = 1 / 2 ^ K * (1 / 2 ^ j)"
    by (simp add: power_int_minus inverse_eq_divide)
  have dec: "x = (of_int M + 0) * 2 powi (ilog2 x - 52)"
    unfolding e_def[symmetric] u by (simp add: M_def x_def)
  have "\<bar>0::rat\<bar> < 1 / 2 \<or> (even M \<and> \<bar>0::rat\<bar> \<le> 1 / 2)" by simp
  with x dec have "to_double x = of_int M * 2 powi (ilog2 x - 52)"
    by (rule to_double_near)
  also have "\<dots> = x" unfolding e_def[symmetric] u by (simp add: M_def x_def)
  finally show ?thesis by (simp add: x_def)
qed

lemma round_third: "round_half_even (of_int N / 3) = (N + 1) div 3"
proof -
  define a where "a = N div 3"
  define b where "b = N mod 3"
  have N: "N = 3 * a + b" by (simp add: a_def b_def)
  have b: "b = 0 \<or> b = 1 \<or> b = 2" unfolding b_def by presburger
  have split: "(of_int N :: rat) / 3 = of_int a + of_int b / 3" by (simp add: N)
  from b show ?thesis
  proof (elim disjE)
    assume b0: "b = 0"
    then have "(N + 1) div 3 = a" using N by presburger
    moreover have "round_half_even (of_int N / 3) = a"
      unfolding split b0 by (simp add: round_half_even_of_int)
    ultimately show ?thesis by simp
  next
    assume b1: "b = 1"
    then have "(N + 1) div 3 = a" using N by presburger
    moreover have "round_half_even (of_int a + 1 / 3) = a"
      by (rule round_half_even_near) simp
    then have "round_half_even (of_int N / 3) = a" unfolding split b1 by simp
    ultimately show ?thesis by simp
  next
    assume b2: "b = 2"
    then have "(N + 1) div 3 = a + 1" using N by presburger
    moreover have r: "round_half_even (of_int (a + 1) + (- (1 / 3))) = a + 1"
      by (rule round_half_even_near) simp
    have eq: "(of_int N :: rat) / 3 = of_int (a + 1) + (- (1 / 3))"
      unfolding split b2 by simp
    have "round_half_even (of_int N / 3) = a + 1" unfolding eq by (rule r)
    ultimately show ?thesis by simp
  qed
qed

lemma third_offset: "\<bar>3 * ((N + 1) div 3) - N\<bar> \<le> (1::int)"
  by presburger

text \<open>
  Rounding \<open>(N + d) / 2^K\<close>, where \<open>N\<close> is a multiple of four, \<open>\<bar>d\<bar> \<le> 1\<close> and \<open>N + d\<close> has 54 or 55
  bits: the result is \<open>N / 2^K\<close>.
\<close>

lemma to_double_offset:
  fixes N' d :: int and K :: nat
  assumes d: "\<bar>d\<bar> \<le> 1" and ev: "even N'"
    and lo: "2 ^ 53 \<le> 2 * N' + d" and hi: "2 * N' + d < 2 ^ 55"
  shows "to_double (of_int (2 * N' + d) / 2 ^ K) = of_int (2 * N') / 2 ^ K"
proof -
  define z :: rat where "z = of_int (2 * N' + d) / 2 ^ K"
  have pos: "(0::rat) < of_int (2 * N' + d)"
  proof -
    have "(0::int) < 2 ^ 53" by simp
    then have "0 < 2 * N' + d" using lo by linarith
    then show ?thesis by (simp only: of_int_0_less_iff)
  qed
  have z: "0 < z" using pos by (simp add: z_def)
  have lo': "(2::rat) ^ 53 \<le> of_int (2 * N' + d)"
  proof -
    have "(of_int (2 ^ 53) :: rat) \<le> of_int (2 * N' + d)" using lo by (simp only: of_int_le_iff)
    then show ?thesis by simp
  qed
  have hi': "of_int (2 * N' + d) < (2::rat) ^ 55"
  proof -
    have "(of_int (2 * N' + d) :: rat) < of_int (2 ^ 55)" using hi by (simp only: of_int_less_iff)
    then show ?thesis by simp
  qed
  have pK: "(2::rat) powi (- int K) = 1 / 2 ^ K"
    by (simp add: power_int_minus inverse_eq_divide)
  have p53: "(2::rat) powi (53 - int K) = 2 ^ 53 / 2 ^ K"
    using powi2_add[of 53 "- int K"] pK by simp
  have p54: "(2::rat) powi (54 - int K) = 2 ^ 54 / 2 ^ K"
    using powi2_add[of 54 "- int K"] pK by simp
  have p55: "(2::rat) powi (55 - int K) = 2 ^ 55 / 2 ^ K"
    using powi2_add[of 55 "- int K"] pK by simp
  have p1: "(2::rat) powi (1 - int K) = 2 / 2 ^ K"
    using powi2_add[of 1 "- int K"] pK by simp
  have p2: "(2::rat) powi (2 - int K) = 4 / 2 ^ K"
    using powi2_add[of 2 "- int K"] pK by simp
  show ?thesis
  proof (cases "2 * N' + d < 2 ^ 54")
    case True
    then have "(of_int (2 * N' + d) :: rat) < of_int (2 ^ 54)" by (simp only: of_int_less_iff)
    then have hi54: "of_int (2 * N' + d) < (2::rat) ^ 54" by simp
    have "2 powi (53 - int K) \<le> z" unfolding p53 z_def using lo' by (simp add: divide_right_mono)
    moreover have "z < 2 powi (53 - int K + 1)"
    proof -
      have "z < 2 ^ 54 / 2 ^ K" unfolding z_def using hi54 by (simp add: divide_strict_right_mono)
      moreover have "53 - int K + 1 = 54 - int K" by simp
      ultimately show ?thesis using p54 by simp
    qed
    ultimately have e: "ilog2 z = 53 - int K" using z by (intro ilog2_unique)
    have u: "(2::rat) powi (ilog2 z - 52) = 2 / 2 ^ K"
    proof -
      have "ilog2 z - 52 = 1 - int K" using e by simp
      then show ?thesis using p1 by simp
    qed
    have dec: "z = (of_int N' + of_int d / 2) * 2 powi (ilog2 z - 52)"
      unfolding u by (simp add: z_def field_simps)
    have "\<bar>(of_int d :: rat) / 2\<bar> \<le> 1 / 2"
    proof -
      have "\<bar>(of_int d :: rat)\<bar> \<le> 1" using d by (metis of_int_1 of_int_abs of_int_le_iff)
      then show ?thesis by simp
    qed
    then have "\<bar>(of_int d :: rat) / 2\<bar> < 1 / 2 \<or> (even N' \<and> \<bar>(of_int d :: rat) / 2\<bar> \<le> 1 / 2)"
      using ev by simp
    with z dec have "to_double z = of_int N' * 2 powi (ilog2 z - 52)" by (rule to_double_near)
    then show ?thesis unfolding u by (simp add: z_def)
  next
    case False
    then have "(2::int) ^ 54 \<le> 2 * N' + d" by simp
    then have "(of_int (2 ^ 54) :: rat) \<le> of_int (2 * N' + d)" by (simp only: of_int_le_iff)
    then have lo54: "(2::rat) ^ 54 \<le> of_int (2 * N' + d)" by simp
    have "2 powi (54 - int K) \<le> z" unfolding p54 z_def using lo54 by (simp add: divide_right_mono)
    moreover have "z < 2 powi (54 - int K + 1)"
    proof -
      have "z < 2 ^ 55 / 2 ^ K" unfolding z_def using hi' by (simp add: divide_strict_right_mono)
      moreover have "54 - int K + 1 = 55 - int K" by simp
      ultimately show ?thesis using p55 by simp
    qed
    ultimately have e: "ilog2 z = 54 - int K" using z by (intro ilog2_unique)
    have u: "(2::rat) powi (ilog2 z - 52) = 4 / 2 ^ K"
    proof -
      have "ilog2 z - 52 = 2 - int K" using e by simp
      then show ?thesis using p2 by simp
    qed
    obtain H where H: "N' = 2 * H" using ev by (elim evenE)
    have dec: "z = (of_int H + of_int d / 4) * 2 powi (ilog2 z - 52)"
      unfolding u by (simp add: z_def H field_simps)
    have "\<bar>(of_int d :: rat) / 4\<bar> < 1 / 2"
    proof -
      have "\<bar>(of_int d :: rat)\<bar> \<le> 1" using d by (metis of_int_1 of_int_abs of_int_le_iff)
      then show ?thesis by simp
    qed
    then have "\<bar>(of_int d :: rat) / 4\<bar> < 1 / 2 \<or> (even H \<and> \<bar>(of_int d :: rat) / 4\<bar> \<le> 1 / 2)"
      by simp
    with z dec have "to_double z = of_int H * 2 powi (ilog2 z - 52)" by (rule to_double_near)
    then show ?thesis unfolding u by (simp add: z_def H)
  qed
qed

lemma div3_mul3_roundtrip:
  fixes q j :: nat
  assumes q: "1 \<le> q" "q < 2 ^ 51"
  shows "to_double (to_double (of_nat q / (3 * 2 ^ j)) * (3 * 2 ^ j)) = of_nat q"
proof -
  define y :: rat where "y = of_nat q / (3 * 2 ^ j)"
  have y: "0 < y" using q(1) by (simp add: y_def)
  define e where "e = ilog2 y"
  have lo: "2 powi e \<le> y" and hi: "y < 2 powi (e + 1)"
    using ilog2_bounds[OF y] by (simp_all add: e_def)
  have ql: "(of_nat q :: rat) < 2 ^ 51" using q(2)
    by (metis of_nat_less_iff of_nat_numeral of_nat_power)
  have yj: "y * 2 ^ j = of_nat q / 3" by (simp add: y_def)
  have "2 powi e * 2 ^ j \<le> y * 2 ^ j" using lo by (intro mult_right_mono) auto
  also have "\<dots> < 2 ^ 50" unfolding yj using ql by simp
  finally have "(2::rat) powi e * 2 powi (int j) < 2 powi 50" by simp
  then have "(2::rat) powi (e + int j) < 2 powi 50" by (simp only: powi2_add)
  then have ej: "e + int j < 50" by (simp only: powi2_less_iff)
  define K where "K = nat (52 - e - int j)"
  have K: "int K = 52 - e - int j" using ej by (simp add: K_def)
  have K3: "3 \<le> K" using K ej by linarith
  have "e - 52 = - int K + - int j" using K by simp
  then have "(2::rat) powi (e - 52) = 2 powi (- int K) * 2 powi (- int j)"
    by (simp only: powi2_add)
  then have u: "(2::rat) powi (e - 52) = 1 / 2 ^ K * (1 / 2 ^ j)"
    by (simp add: power_int_minus inverse_eq_divide)
  have pe: "(2::rat) powi e = 2 ^ 52 * (1 / 2 ^ K * (1 / 2 ^ j))"
  proof -
    have "e = 52 + (e - 52)" by simp
    then have "(2::rat) powi e = 2 powi 52 * 2 powi (e - 52)" by (metis powi2_add)
    then show ?thesis unfolding u by simp
  qed
  have pe1: "(2::rat) powi (e + 1) = 2 ^ 53 * (1 / 2 ^ K * (1 / 2 ^ j))"
  proof -
    have "(2::rat) powi (e + 1) = 2 powi e * 2 powi 1" by (rule powi2_add)
    then show ?thesis unfolding pe by simp
  qed
  define N where "N = int q * 2 ^ K"
  have yu: "y / (1 / 2 ^ K * (1 / 2 ^ j)) = of_int N / 3" by (simp add: y_def N_def)
  define R where "R = (N + 1) div 3"
  have R: "round_half_even (y / (1 / 2 ^ K * (1 / 2 ^ j))) = R"
    unfolding yu R_def by (rule round_third)
  have fy: "to_double y = of_int R * (1 / 2 ^ K * (1 / 2 ^ j))"
    using to_double_pos_eq[OF y] R unfolding e_def[symmetric] u by simp
  define d where "d = 3 * R - N"
  have d: "\<bar>d\<bar> \<le> 1" unfolding d_def R_def by (rule third_offset)
  have z: "to_double y * (3 * 2 ^ j) = of_int (N + d) / 2 ^ K"
    unfolding fy by (simp add: d_def)
  define N' where "N' = int q * 2 ^ (K - 1)"
  have KS: "K = Suc (Suc (K - 2))" using K3 by simp
  have N2: "N = 2 * N'"
  proof -
    have "K = Suc (K - 1)" using K3 by simp
    then have "(2::int) ^ K = 2 * 2 ^ (K - 1)" by (metis power_Suc)
    then show ?thesis by (simp add: N_def N'_def)
  qed
  have ev: "even N'"
  proof -
    have "K - 1 = Suc (K - 2)" using K3 by simp
    then have "(2::int) ^ (K - 1) = 2 * 2 ^ (K - 2)" by (metis power_Suc)
    then show ?thesis by (simp add: N'_def)
  qed
  have Nlo: "3 * 2 ^ 52 \<le> N"
  proof -
    have "2 ^ 52 * (1 / 2 ^ K * (1 / 2 ^ j)) \<le> y" using lo unfolding pe .
    then have "(2::rat) ^ 52 \<le> y / (1 / 2 ^ K * (1 / 2 ^ j))" by (simp add: field_simps)
    then have "(2::rat) ^ 52 \<le> of_int N / 3" unfolding yu .
    then have "(of_int (3 * 2 ^ 52) :: rat) \<le> of_int N" by simp
    then show ?thesis by (simp only: of_int_le_iff)
  qed
  have Nhi: "N < 3 * 2 ^ 53"
  proof -
    have "y < 2 ^ 53 * (1 / 2 ^ K * (1 / 2 ^ j))" using hi unfolding pe1 .
    then have "y / (1 / 2 ^ K * (1 / 2 ^ j)) < (2::rat) ^ 53" by (simp add: field_simps)
    then have "of_int N / 3 < (2::rat) ^ 53" unfolding yu .
    then have "(of_int N :: rat) < of_int (3 * 2 ^ 53)" by simp
    then show ?thesis by (simp only: of_int_less_iff)
  qed
  have b1: "2 ^ 53 \<le> 2 * N' + d" using Nlo d unfolding N2 by simp
  have b2: "2 * N' + d < 2 ^ 55" using Nhi d unfolding N2 by simp
  have "to_double (of_int (2 * N' + d) / 2 ^ K) = of_int (2 * N') / 2 ^ K"
    using d ev b1 b2 by (rule to_double_offset)
  then have "to_double (of_int (N + d) / 2 ^ K) = of_int N / 2 ^ K" unfolding N2 .
  also have "\<dots> = of_nat q" by (simp add: N_def)
  finally show ?thesis unfolding y_def[symmetric] z .
qed

lemma div_mul_roundtrip:
  fixes q m :: nat
  assumes q: "1 \<le> q" "q < 2 ^ 51" and m: "m \<in> {1, 2, 3, 4, 6, 8, 12}"
  shows "to_double (to_double (of_nat q / of_nat m) * of_nat m) = of_nat q"
proof -
  have q53: "q < 2 ^ 53" using q(2) by (simp add: less_trans)
  have dy: "to_double (to_double (of_nat q / 2 ^ k) * 2 ^ k) = of_nat q" for k
    using to_double_dyadic[OF q53, of k] to_double_of_nat[OF q53] by simp
  from m consider "m = 1" | "m = 2" | "m = 3" | "m = 4" | "m = 6" | "m = 8" | "m = 12" by auto
  then show ?thesis
  proof cases
    case 1 then show ?thesis using dy[of 0] by simp
  next
    case 2 then show ?thesis using dy[of 1] by simp
  next
    case 3 then show ?thesis using div3_mul3_roundtrip[OF q, of 0] by simp
  next
    case 4 then show ?thesis using dy[of 2] by simp
  next
    case 5 then show ?thesis using div3_mul3_roundtrip[OF q, of 1] by simp
  next
    case 6 then show ?thesis using dy[of 3] by simp
  next
    case 7 then show ?thesis using div3_mul3_roundtrip[OF q, of 2] by simp
  qed
qed

lemma ceil_rate_times:
  fixes s t m :: nat
  assumes t: "0 < t" and s: "s < 2 ^ 47" and m: "m \<in> {1, 2, 3, 4, 6, 8, 12}"
  shows "\<lceil>to_double (to_double (of_nat s / of_nat t) * of_nat m)\<rceil>
           = \<lceil>(of_nat (s * m) :: rat) / of_nat t\<rceil>"
proof (cases "s = 0")
  case True
  then show ?thesis by (simp add: to_double_def)
next
  case False
  have m1: "1 \<le> m" and m16: "m < 16" using m by auto
  define y :: rat where "y = of_nat s / of_nat t"
  define v :: rat where "v = of_nat (s * m) / of_nat t"
  define r where "r = to_double y"
  define z where "z = r * of_nat m"
  define x where "x = to_double z"
  have tpos: "(0::rat) < of_nat t" using t by simp
  have mpos: "(0::rat) < of_nat m" using m1 by simp
  have y: "0 < y" using False t by (simp add: y_def)
  have vy: "v = y * of_nat m" by (simp add: v_def y_def)
  have v: "0 < v" using y mpos by (simp add: vy)
  have r: "0 < r" unfolding r_def by (rule to_double_pos[OF y])
  have z: "0 < z" using r mpos by (simp add: z_def)
  have e1: "\<bar>r - y\<bar> \<le> y / 2 ^ 53" unfolding r_def by (rule to_double_err[OF y])
  have zv: "\<bar>z - v\<bar> \<le> v / 2 ^ 53"
  proof -
    have "z - v = (r - y) * of_nat m" by (simp add: z_def vy algebra_simps)
    then have "\<bar>z - v\<bar> = \<bar>r - y\<bar> * of_nat m" using mpos by (simp add: abs_mult)
    also have "\<dots> \<le> y / 2 ^ 53 * of_nat m" using e1 mpos by (intro mult_right_mono) auto
    finally show ?thesis by (simp add: vy)
  qed
  have "v / 2 ^ 53 \<le> v" using v by (simp add: field_simps)
  then have z2: "z \<le> 2 * v" using zv by linarith
  have "\<bar>x - z\<bar> \<le> z / 2 ^ 53" unfolding x_def by (rule to_double_err[OF z])
  also have "\<dots> \<le> 2 * v / 2 ^ 53" using z2 by (simp add: divide_right_mono)
  finally have xz: "\<bar>x - z\<bar> \<le> v / 2 ^ 52" by simp
  have "\<bar>x - v\<bar> \<le> \<bar>x - z\<bar> + \<bar>z - v\<bar>" by simp
  also have "\<dots> \<le> v / 2 ^ 52 + v / 2 ^ 53" using xz zv by simp
  also have "\<dots> < v / 2 ^ 51" using v by simp
  finally have xv: "\<bar>x - v\<bar> < v / 2 ^ 51" .
  have "s * m < 2 ^ 47 * 16" using s m16 False
    by (intro mult_strict_mono) auto
  then have sm: "s * m < 2 ^ 51" by simp
  then have "(of_nat (s * m) :: rat) < 2 ^ 51"
    by (metis of_nat_less_iff of_nat_numeral of_nat_power)
  then have "v < 2 ^ 51 / of_nat t" using tpos by (simp add: v_def divide_strict_right_mono)
  then have "v / 2 ^ 51 < 1 / of_nat t" by (simp add: field_simps)
  with xv have "\<bar>x - v\<bar> < 1 / of_nat t" by linarith
  then have near: "v - 1 / of_nat t < x" "x < v + 1 / of_nat t" by linarith+
  define j where "j = (s * m) div t"
  define f where "f = (s * m) mod t"
  have smjf: "s * m = j * t + f" by (simp add: j_def f_def)
  have "(of_nat (s * m) :: rat) = of_nat (j * t + f)" by (simp only: smjf)
  then have smr: "(of_nat (s * m) :: rat) = of_nat j * of_nat t + of_nat f" by simp
  have vjf: "v = of_nat j + of_nat f / of_nat t"
    unfolding v_def smr using tpos by (simp add: field_simps)
  show ?thesis
  proof (cases "f = 0")
    case False
    have ft: "f < t" unfolding f_def using t by simp
    then have "f + 1 \<le> t" by simp
    then have "(of_nat (f + 1) :: rat) \<le> of_nat t" by (simp only: of_nat_le_iff)
    then have "(of_nat f :: rat) + 1 \<le> of_nat t" by simp
    then have "of_nat f / of_nat t + 1 / of_nat t \<le> (1::rat)" using tpos by (simp add: field_simps)
    then have hi: "v + 1 / of_nat t \<le> of_nat j + 1" by (simp add: vjf)
    have "1 \<le> f" using False by simp
    then have "(1::rat) \<le> of_nat f" by simp
    then have "1 / of_nat t \<le> (of_nat f :: rat) / of_nat t" using tpos by (simp add: divide_right_mono)
    then have lo: "of_nat j \<le> v - 1 / of_nat t" by (simp add: vjf)
    have "of_nat j < x" "x \<le> of_nat j + 1" using near lo hi by linarith+
    then have "of_int (int j + 1) - 1 < x" "x \<le> of_int (int j + 1)" by simp_all
    then have 1: "\<lceil>x\<rceil> = int j + 1" by (rule ceiling_unique)
    have ipos: "0 < 1 / (of_nat t :: rat)" using tpos by simp
    have "of_nat j < v" "v \<le> of_nat j + 1" using ipos lo hi by linarith+
    then have "of_int (int j + 1) - 1 < v" "v \<le> of_int (int j + 1)" by simp_all
    then have 2: "\<lceil>v\<rceil> = int j + 1" by (rule ceiling_unique)
    show ?thesis using 1 2 by (simp only: x_def z_def r_def y_def v_def)
  next
    case True
    then have sm': "s * m = j * t" using smjf by simp
    have vj: "v = of_nat j" using True by (simp add: vjf)
    have j1: "1 \<le> j" using v vj by (cases j) simp_all
    have "j \<le> s * m" by (simp add: j_def)
    then have j51: "j < 2 ^ 51" using sm by simp
    have "(of_nat s :: rat) * of_nat m = of_nat j * of_nat t"
      using sm' by (metis of_nat_mult)
    then have "y = of_nat j / of_nat m" using tpos mpos by (simp add: y_def field_simps)
    then have "x = of_nat j"
      unfolding x_def z_def r_def using div_mul_roundtrip[OF j1 j51 m] by simp
    then have "\<lceil>x\<rceil> = \<lceil>v\<rceil>" using vj by simp
    then show ?thesis by (simp only: x_def z_def r_def y_def v_def)
  qed
qed

section \<open>Properties of the alert log\<close>

lemma alerts_after_snoc:
  "alerts_after f (cs @ [c]) = addAlert f c (alerts_after f cs)"
  by (simp add: alerts_after_def)

lemma alerts_after_take: "alerts_after f cs = take 5 (rev (map (make_alert f) cs))"
proof (induction cs rule: rev_induct)
  case Nil
  show ?case by (simp add: alerts_after_def)
next
  case (snoc c cs)
  have "take 4 (take 5 (rev (map (make_alert f) cs))) = take 4 (rev (map (make_alert f) cs))"
    by simp
  with snoc show ?case
    by (simp add: alerts_after_snoc addAlert_def numeral_eq_Suc)
qed

text \<open>
  Claim C7. The alert log never exceeds 5 entries. Recording prepends the new entry; on a log
  that already holds five entries the oldest (last) one is dropped. After any sequence of
  records from the empty log, the log has \<open>min n 5\<close> entries, and they are the five most
  recent calls, newest first.
\<close>

theorem C7_alert_log_bounded:
  "length (alerts_after f cs) = min (length cs) 5
   \<and> alerts_after f cs = take 5 (rev (map (make_alert f) cs))
   \<and> addAlert f c (a1 # a2 # a3 # a4 # a5 # older) = [make_alert f c, a1, a2, a3, a4]
   \<and> hd (addAlert f c prev) = make_alert f c
   \<and> alert_timestamp (make_alert f c) = f (call_new_date c)"
  by (simp add: alerts_after_take addAlert_def make_alert_def min.commute)

section \<open>Properties of the fallback synthesis\<close>

lemma Math_floor_div10:
  assumes "n < 2 ^ 53"
  shows "Math_floor (js_div (or_zero (of_nat n)) 10) = of_nat (n div 10)"
proof -
  have "or_zero (of_nat n) = of_nat n" by (simp add: or_zero_def)
  then show ?thesis
    using floor_to_double_div10[OF assms] by (simp add: Math_floor_def js_div_def)
qed

lemma timeline_unrolled:
  "timeline_loop fmt now cs 9 \<lparr> timestamps = [], normal_counts = [], anomaly_counts = [] \<rparr> =
     \<lparr> timestamps = map (\<lambda>k. fmt (now - k * 120000)) [9, 8, 7, 6, 5, 4, 3, 2, 1, 0],
       normal_counts = replicate 9 (Math_floor (js_div (or_zero (of_nat (normalCount cs))) 10))
                        @ [or_zero (of_nat (normalCount cs))],
       anomaly_counts = replicate 9 (Math_floor (js_div (or_zero (of_nat (suspiciousCount cs))) 10))
                        @ [or_zero (of_nat (suspiciousCount cs))] \<rparr>"
proof -
  have 9: "(9::nat) = Suc (Suc (Suc (Suc (Suc (Suc (Suc (Suc (Suc 0))))))))" by simp
  show ?thesis unfolding 9 by simp
qed

text \<open>
  Claim C4. For LocalStats whose counters are integers a JavaScript number holds exactly
  (below \<open>2^53\<close>), the synthesized timeline has exactly 10 points, at the time values
  \<open>now - 18 min, now - 16 min, ..., now\<close> (2-minute spacing, oldest first); the last point is
  \<open>(normalCount, suspiciousCount)\<close> and each of the nine earlier points is
  \<open>(normalCount div 10, suspiciousCount div 10)\<close>. The witness is Scenario A of the
  specification: for \<open>{totalLogs: 100, normalCount: 90, suspiciousCount: 10}\<close> the final point is
  \<open>(90, 10)\<close> and the nine earlier points are \<open>(9, 1)\<close>.
\<close>

theorem C4_timeline_points:
  assumes "normalCount cs < 2 ^ 53" and "suspiciousCount cs < 2 ^ 53"
  shows "timestamps (timeline_data (generateDataFromStats fmt now cs))
           = map (\<lambda>k. fmt (now - k * 120000)) [9, 8, 7, 6, 5, 4, 3, 2, 1, 0]
       \<and> normal_counts (timeline_data (generateDataFromStats fmt now cs))
           = replicate 9 (of_nat (normalCount cs div 10)) @ [of_nat (normalCount cs)]
       \<and> anomaly_counts (timeline_data (generateDataFromStats fmt now cs))
           = replicate 9 (of_nat (suspiciousCount cs div 10)) @ [of_nat (suspiciousCount cs)]
       \<and> length (timestamps (timeline_data (generateDataFromStats fmt now cs))) = 10"
proof -
  have oz: "\<And>n::nat. or_zero (of_nat n) = of_nat n" by (simp add: or_zero_def)
  show ?thesis
    using Math_floor_div10[OF assms(1)] Math_floor_div10[OF assms(2)]
    by (simp add: generateDataFromStats_def timeline_unrolled oz)
qed

theorem C4_scenario_A_witness:
  "normalCount \<lparr> totalLogs = 100, normalCount = 90, suspiciousCount = 10 \<rparr> < 2 ^ 53
   \<and> suspiciousCount \<lparr> totalLogs = 100, normalCount = 90, suspiciousCount = 10 \<rparr> < 2 ^ 53
   \<and> timestamps (timeline_data (generateDataFromStats hh_mm_utc 1200000
         \<lparr> totalLogs = 100, normalCount = 90, suspiciousCount = 10 \<rparr>))
       = [''00:02'', ''00:04'', ''00:06'', ''00:08'', ''00:10'',
          ''00:12'', ''00:14'', ''00:16'', ''00:18'', ''00:20'']
   \<and> normal_counts (timeline_data (generateDataFromStats hh_mm_utc 1200000
         \<lparr> totalLogs = 100, normalCount = 90, suspiciousCount = 10 \<rparr>))
       = [9, 9, 9, 9, 9, 9, 9, 9, 9, 90]
   \<and> anomaly_counts (timeline_data (generateDataFromStats hh_mm_utc 1200000
         \<lparr> totalLogs = 100, normalCount = 90, suspiciousCount = 10 \<rparr>))
       = [1, 1, 1, 1, 1, 1, 1, 1, 1, 10]"
proof -
  let ?cs = "\<lparr> totalLogs = 100, normalCount = 90, suspiciousCount = 10 \<rparr>"
  have h1: "normalCount ?cs < 2 ^ 53" by simp
  have h2: "suspiciousCount ?cs < 2 ^ 53" by simp
  have r9: "\<And>x::rat. replicate 9 x = [x, x, x, x, x, x, x, x, x]"
    by (simp add: numeral_eq_Suc)
  have d: "two_digits 0 = ''00''" "two_digits 2 = ''02''" "two_digits 4 = ''04''"
    "two_digits 6 = ''06''" "two_digits 8 = ''08''" "two_digits 10 = ''10''"
    "two_digits 12 = ''12''" "two_digits 14 = ''14''" "two_digits 16 = ''16''"
    "two_digits 18 = ''18''" "two_digits 20 = ''20''"
    by (simp_all add: two_digits_def)
  show ?thesis
    using C4_timeline_points[OF h1 h2, of hh_mm_utc 1200000] h1 h2
    by (simp add: hh_mm_utc_def d r9)
qed

lemma generated_timeline:
  "timeline_data (generateDataFromStats fmt now cs) =
     \<lparr> timestamps = map (\<lambda>k. fmt (now - k * 120000)) [9, 8, 7, 6, 5, 4, 3, 2, 1, 0],
       normal_counts = replicate 9 (Math_floor (js_div (or_zero (of_nat (normalCount cs))) 10))
                        @ [or_zero (of_nat (normalCount cs))],
       anomaly_counts = replicate 9 (Math_floor (js_div (or_zero (of_nat (suspiciousCount cs))) 10))
                        @ [or_zero (of_nat (suspiciousCount cs))] \<rparr>"
  by (simp add: generateDataFromStats_def timeline_unrolled)

lemma hh_mm_utc_examples:
  "hh_mm_utc 0 = ''00:00''" "hh_mm_utc 600000 = ''00:10''"
  by (simp_all add: hh_mm_utc_def two_digits_def)

text \<open>
  Claim C6, as stated, fails: the synthesis reads the clock (\<open>new Date()\<close>), so two invocations
  with equal LocalStats, ten minutes apart, give datasets with different timeline timestamps.
\<close>

theorem C6_clock_counterexample:
  "generateDataFromStats hh_mm_utc 0 \<lparr> totalLogs = 100, normalCount = 90, suspiciousCount = 10 \<rparr>
     \<noteq> generateDataFromStats hh_mm_utc 600000 \<lparr> totalLogs = 100, normalCount = 90, suspiciousCount = 10 \<rparr>"
proof
  assume "generateDataFromStats hh_mm_utc 0 \<lparr> totalLogs = 100, normalCount = 90, suspiciousCount = 10 \<rparr>
     = generateDataFromStats hh_mm_utc 600000 \<lparr> totalLogs = 100, normalCount = 90, suspiciousCount = 10 \<rparr>"
  then have "last (timestamps (timeline_data (generateDataFromStats hh_mm_utc 0
                 \<lparr> totalLogs = 100, normalCount = 90, suspiciousCount = 10 \<rparr>)))
     = last (timestamps (timeline_data (generateDataFromStats hh_mm_utc 600000
                 \<lparr> totalLogs = 100, normalCount = 90, suspiciousCount = 10 \<rparr>)))"
    by simp
  then show False
    by (simp add: generated_timeline hh_mm_utc_examples)
qed

text \<open>
  Claim C6, amended. The synthesized dataset is a function of LocalStats and of the clock
  reading (and the locale's time format): the normal and anomaly counts, the threat
  categories, the hourly pattern and the source tag depend on LocalStats only, whatever the
  clock and the format; the timeline timestamps depend on the clock and the format only,
  whatever the LocalStats.
\<close>

theorem C6_deterministic_up_to_clock:
  "normal_counts (timeline_data (generateDataFromStats fmt now cs))
     = normal_counts (timeline_data (generateDataFromStats fmt' now' cs))
   \<and> anomaly_counts (timeline_data (generateDataFromStats fmt now cs))
     = anomaly_counts (timeline_data (generateDataFromStats fmt' now' cs))
   \<and> threat_categories (generateDataFromStats fmt now cs)
     = threat_categories (generateDataFromStats fmt' now' cs)
   \<and> hourly_patterns (generateDataFromStats fmt now cs)
     = hourly_patterns (generateDataFromStats fmt' now' cs)
   \<and> data_source (generateDataFromStats fmt now cs)
     = data_source (generateDataFromStats fmt' now' cs)
   \<and> timestamps (timeline_data (generateDataFromStats fmt now cs))
     = timestamps (timeline_data (generateDataFromStats fmt now cs'))"
  by (simp add: generated_timeline) (simp add: generateDataFromStats_def)

lemma double_literals:
  "to_double (4 / 10) = 3602879701896397 / 9007199254740992"
  "to_double (3 / 10) = 5404319552844595 / 18014398509481984"
  "to_double (2 / 10) = 3602879701896397 / 18014398509481984"
  "to_double (1 / 10) = 3602879701896397 / 36028797018963968"
  "to_double (2 / 100) = 5764607523034235 / 288230376151711744"
  by code_simp+

lemma Math_ceil_ge_1:
  assumes "0 < a" and "0 < b"
  shows "1 \<le> Math_ceil (js_mul a b)"
proof -
  have "0 < to_double (a * b)" using assms by (intro to_double_pos) simp
  then have "0 < \<lceil>to_double (a * b)\<rceil>" by (simp add: less_ceiling_iff)
  then have "1 \<le> \<lceil>to_double (a * b)\<rceil>" by linarith
  then have "(of_int 1 :: rat) \<le> of_int \<lceil>to_double (a * b)\<rceil>" by (simp only: of_int_le_iff)
  then show ?thesis by (simp add: Math_ceil_def js_mul_def)
qed

lemma totalThreats_ge_1: "1 \<le> totalThreats cs"
  by (simp add: totalThreats_def Math_max_def)

lemma totalThreats_eq: "totalThreats cs = of_nat (max (suspiciousCount cs) 1)"
  by (cases "suspiciousCount cs = 0") (auto simp: totalThreats_def Math_max_def max_def)

lemma zero_input_categories:
  "Math_ceil (js_mul 1 (to_double (4 / 10))) = 1"
  "Math_ceil (js_mul 1 (to_double (3 / 10))) = 1"
  "Math_ceil (js_mul 1 (to_double (2 / 10))) = 1"
  "Math_ceil (js_mul 1 (to_double (1 / 10))) = 1"
  by code_simp+

lemma default_rate_hourly:
  "Math_ceil (js_mul (to_double (2 / 100)) 12) = 1"
  "Math_ceil (js_mul (to_double (2 / 100)) 8) = 1"
  "Math_ceil (js_mul (to_double (2 / 100)) 3) = 1"
  "Math_ceil (js_mul (to_double (2 / 100)) 2) = 1"
  "Math_ceil (js_mul (to_double (2 / 100)) 1) = 1"
  "Math_ceil (js_mul (to_double (2 / 100)) 4) = 1"
  "Math_ceil (js_mul (to_double (2 / 100)) 6) = 1"
  by code_simp+

lemma categories_nonzero:
  "Math_ceil (js_mul (totalThreats cs) (to_double (4 / 10))) \<noteq> 0"
  "Math_ceil (js_mul (totalThreats cs) (to_double (3 / 10))) \<noteq> 0"
  "Math_ceil (js_mul (totalThreats cs) (to_double (2 / 10))) \<noteq> 0"
  "Math_ceil (js_mul (totalThreats cs) (to_double (1 / 10))) \<noteq> 0"
proof -
  have t: "0 < totalThreats cs" using totalThreats_ge_1[of cs] by linarith
  have w: "0 < to_double (4 / 10)" "0 < to_double (3 / 10)"
    "0 < to_double (2 / 10)" "0 < to_double (1 / 10)"
    by (rule to_double_pos, simp)+
  show "Math_ceil (js_mul (totalThreats cs) (to_double (4 / 10))) \<noteq> 0"
    using Math_ceil_ge_1[OF t w(1)] by linarith
  show "Math_ceil (js_mul (totalThreats cs) (to_double (3 / 10))) \<noteq> 0"
    using Math_ceil_ge_1[OF t w(2)] by linarith
  show "Math_ceil (js_mul (totalThreats cs) (to_double (2 / 10))) \<noteq> 0"
    using Math_ceil_ge_1[OF t w(3)] by linarith
  show "Math_ceil (js_mul (totalThreats cs) (to_double (1 / 10))) \<noteq> 0"
    using Math_ceil_ge_1[OF t w(4)] by linarith
qed

lemma generated_categories:
  "counts (threat_categories (generateDataFromStats fmt now cs)) =
     [Math_ceil (js_mul (totalThreats cs) (to_double (4 / 10))),
      Math_ceil (js_mul (totalThreats cs) (to_double (3 / 10))),
      Math_ceil (js_mul (totalThreats cs) (to_double (2 / 10))),
      Math_ceil (js_mul (totalThreats cs) (to_double (1 / 10)))]"
  by (simp add: generateDataFromStats_def)

lemma generated_hourly:
  "threat_counts (hourly_patterns (generateDataFromStats fmt now cs)) =
     [Math_ceil (js_mul (baseAnomalyRate cs) 12), Math_ceil (js_mul (baseAnomalyRate cs) 8),
      Math_ceil (js_mul (baseAnomalyRate cs) 3), Math_ceil (js_mul (baseAnomalyRate cs) 2),
      Math_ceil (js_mul (baseAnomalyRate cs) 1), Math_ceil (js_mul (baseAnomalyRate cs) 2),
      Math_ceil (js_mul (baseAnomalyRate cs) 4), Math_ceil (js_mul (baseAnomalyRate cs) 6)]"
  by (simp add: generateDataFromStats_def)

lemma zero_input_values:
  "totalThreats \<lparr> totalLogs = 0, normalCount = 0, suspiciousCount = 0 \<rparr> = 1"
  "baseAnomalyRate \<lparr> totalLogs = 0, normalCount = 0, suspiciousCount = 0 \<rparr> = to_double (2 / 100)"
  by (simp_all add: totalThreats_def Math_max_def baseAnomalyRate_def)

lemma literal_errors:
  "to_double (4 / 10) = of_nat 4 / 10 * (1 + 1 / 18014398509481984)"
  "to_double (3 / 10) = of_nat 3 / 10 * (1 + (- (1 / 27021597764222976)))"
  "to_double (2 / 10) = of_nat 2 / 10 * (1 + 1 / 18014398509481984)"
  "to_double (1 / 10) = of_nat 1 / 10 * (1 + 1 / 18014398509481984)"
  unfolding double_literals by simp_all

lemma category_exact:
  fixes n k :: nat
  assumes n: "1 \<le> n" "n < 2 ^ 48" and k: "1 \<le> k" "k \<le> 4"
    and c: "c = of_nat k / 10 * (1 + dl)" and dl: "\<bar>dl\<bar> \<le> 1 / 2 ^ 54"
  shows "Math_ceil (js_mul (of_nat n) c) = of_int \<lceil>of_nat n * (of_nat k / 10 :: rat)\<rceil>"
proof -
  have "\<lceil>to_double (of_nat n * (of_nat k / 10 * (1 + dl)))\<rceil> = \<lceil>(of_nat (n * k) :: rat) / 10\<rceil>"
    using n k dl by (rule ceil_weighted)
  moreover have "(of_nat (n * k) :: rat) / 10 = of_nat n * (of_nat k / 10)" by simp
  ultimately show ?thesis unfolding Math_ceil_def js_mul_def c by simp
qed

lemma categories_exact:
  assumes "suspiciousCount l < 2 ^ 47"
  shows "counts (threat_categories (generateDataFromStats fmt now l)) = spec_category_counts l"
proof -
  define n where "n = max (suspiciousCount l) 1"
  have n: "1 \<le> n" "n < 2 ^ 48" using assms by (auto simp: n_def max_def intro: less_trans)
  have t: "totalThreats l = of_nat n" by (simp add: totalThreats_eq n_def)
  have 4: "Math_ceil (js_mul (of_nat n) (to_double (4 / 10))) = of_int \<lceil>of_nat n * (of_nat 4 / 10 :: rat)\<rceil>"
    using n by (rule category_exact[OF _ _ _ _ literal_errors(1)]) simp_all
  have 3: "Math_ceil (js_mul (of_nat n) (to_double (3 / 10))) = of_int \<lceil>of_nat n * (of_nat 3 / 10 :: rat)\<rceil>"
    using n by (rule category_exact[OF _ _ _ _ literal_errors(2)]) simp_all
  have 2: "Math_ceil (js_mul (of_nat n) (to_double (2 / 10))) = of_int \<lceil>of_nat n * (of_nat 2 / 10 :: rat)\<rceil>"
    using n by (rule category_exact[OF _ _ _ _ literal_errors(3)]) simp_all
  have 1: "Math_ceil (js_mul (of_nat n) (to_double (1 / 10))) = of_int \<lceil>of_nat n * (of_nat 1 / 10 :: rat)\<rceil>"
    using n by (rule category_exact[OF _ _ _ _ literal_errors(4)]) simp_all
  show ?thesis
    unfolding generated_categories t 4 3 2 1 spec_category_counts_def n_def[symmetric]
    by simp
qed

lemma hourly_exact_pos:
  fixes m :: nat
  assumes "0 < totalLogs l" and "suspiciousCount l < 2 ^ 47" and "m \<in> {1, 2, 3, 4, 6, 8, 12}"
  shows "Math_ceil (js_mul (baseAnomalyRate l) (of_nat m)) = of_int \<lceil>spec_base_rate l * of_nat m\<rceil>"
proof -
  have "\<lceil>to_double (to_double (of_nat (suspiciousCount l) / of_nat (totalLogs l)) * of_nat m)\<rceil>
          = \<lceil>(of_nat (suspiciousCount l * m) :: rat) / of_nat (totalLogs l)\<rceil>"
    using assms by (rule ceil_rate_times)
  moreover have "(of_nat (suspiciousCount l * m) :: rat) / of_nat (totalLogs l)
          = of_nat (suspiciousCount l) / of_nat (totalLogs l) * of_nat m" by simp
  ultimately show ?thesis
    using assms(1) by (simp add: Math_ceil_def js_mul_def baseAnomalyRate_def js_div_def spec_base_rate_def)
qed

lemma ceiling_unit: "0 < (q::rat) \<Longrightarrow> q \<le> 1 \<Longrightarrow> \<lceil>q\<rceil> = 1"
  by (rule ceiling_unique) simp_all

lemma hourly_exact:
  assumes "suspiciousCount l < 2 ^ 47"
  shows "threat_counts (hourly_patterns (generateDataFromStats fmt now l)) = spec_hourly_counts l"
proof (cases "0 < totalLogs l")
  case True
  have h: "Math_ceil (js_mul (baseAnomalyRate l) (of_nat m)) = of_int \<lceil>spec_base_rate l * of_nat m\<rceil>"
    if "m \<in> {1, 2, 3, 4, 6, 8, 12}" for m :: nat
    using True assms that by (rule hourly_exact_pos)
  show ?thesis
    unfolding generated_hourly spec_hourly_counts_def
    using h[of 12] h[of 8] h[of 3] h[of 2] h[of 1] h[of 4] h[of 6] by simp
next
  case False
  then have b: "baseAnomalyRate l = to_double (2 / 100)" "spec_base_rate l = 2 / 100"
    by (simp_all add: baseAnomalyRate_def spec_base_rate_def)
  show ?thesis
    unfolding generated_hourly spec_hourly_counts_def b default_rate_hourly
    by (simp add: ceiling_unit)
qed

text \<open>
  Claim C5. For every LocalStats, the synthesized threat-category counts are
  \<open>Math.ceil(totalThreats * w)\<close> for the weights \<open>0.4, 0.3, 0.2, 0.1\<close> in this order, with
  \<open>totalThreats = max(suspiciousCount, 1)\<close>, and the hourly counts are
  \<open>Math.ceil(baseRate * m)\<close> for the multipliers \<open>12, 8, 3, 2, 1, 2, 4, 6\<close> in this order, with
  \<open>baseRate = suspiciousCount / totalLogs\<close> when \<open>totalLogs > 0\<close> and \<open>0.02\<close> otherwise. The
  products and the quotient are binary64 operations; for a suspicious count below \<open>2^47\<close> the
  results are the ceilings of the specification's formulas in exact arithmetic. No category
  count is ever zero; on the all-zero input \<open>totalThreats\<close> is 1, the category counts are
  \<open>[1, 1, 1, 1]\<close> and the hourly counts are all 1. The witness is Scenario A of the
  specification: category counts \<open>[4, 3, 2, 1]\<close>, hourly counts \<open>[2, 1, 1, 1, 1, 1, 1, 1]\<close>.
\<close>

theorem C5_counts_are_ceilings:
  "counts (threat_categories (generateDataFromStats fmt now cs))
     = map (\<lambda>w. Math_ceil (js_mul (totalThreats cs) w))
         [to_double (4 / 10), to_double (3 / 10), to_double (2 / 10), to_double (1 / 10)]
   \<and> totalThreats cs = of_nat (max (suspiciousCount cs) 1)
   \<and> threat_counts (hourly_patterns (generateDataFromStats fmt now cs))
     = map (\<lambda>m. Math_ceil (js_mul (baseAnomalyRate cs) m)) [12, 8, 3, 2, 1, 2, 4, 6]
   \<and> baseAnomalyRate cs
     = (if 0 < totalLogs cs
        then js_div (of_nat (suspiciousCount cs)) (of_nat (totalLogs cs))
        else to_double (2 / 100))
   \<and> (suspiciousCount cs < 2 ^ 47 \<longrightarrow>
        counts (threat_categories (generateDataFromStats fmt now cs)) = spec_category_counts cs
        \<and> threat_counts (hourly_patterns (generateDataFromStats fmt now cs)) = spec_hourly_counts cs)
   \<and> 0 \<notin> set (counts (threat_categories (generateDataFromStats fmt now cs)))
   \<and> totalThreats \<lparr> totalLogs = 0, normalCount = 0, suspiciousCount = 0 \<rparr> = 1
   \<and> counts (threat_categories (generateDataFromStats fmt now
         \<lparr> totalLogs = 0, normalCount = 0, suspiciousCount = 0 \<rparr>)) = [1, 1, 1, 1]
   \<and> threat_counts (hourly_patterns (generateDataFromStats fmt now
         \<lparr> totalLogs = 0, normalCount = 0, suspiciousCount = 0 \<rparr>)) = [1, 1, 1, 1, 1, 1, 1, 1]"
proof -
  have nz: "0 \<notin> set (counts (threat_categories (generateDataFromStats fmt now cs)))"
    using categories_nonzero[of cs] by (simp add: generated_categories)
  have z1: "counts (threat_categories (generateDataFromStats fmt now
         \<lparr> totalLogs = 0, normalCount = 0, suspiciousCount = 0 \<rparr>)) = [1, 1, 1, 1]"
    by (simp only: generated_categories zero_input_values zero_input_categories)
  have z2: "threat_counts (hourly_patterns (generateDataFromStats fmt now
         \<lparr> totalLogs = 0, normalCount = 0, suspiciousCount = 0 \<rparr>)) = [1, 1, 1, 1, 1, 1, 1, 1]"
    by (simp only: generated_hourly zero_input_values default_rate_hourly)
  have ex: "suspiciousCount cs < 2 ^ 47 \<longrightarrow>
        counts (threat_categories (generateDataFromStats fmt now cs)) = spec_category_counts cs
        \<and> threat_counts (hourly_patterns (generateDataFromStats fmt now cs)) = spec_hourly_counts cs"
    using categories_exact hourly_exact by blast
  have f1: "counts (threat_categories (generateDataFromStats fmt now cs))
     = map (\<lambda>w. Math_ceil (js_mul (totalThreats cs) w))
         [to_double (4 / 10), to_double (3 / 10), to_double (2 / 10), to_double (1 / 10)]"
    by (simp add: generated_categories)
  have f2: "threat_counts (hourly_patterns (generateDataFromStats fmt now cs))
     = map (\<lambda>m. Math_ceil (js_mul (baseAnomalyRate cs) m)) [12, 8, 3, 2, 1, 2, 4, 6]"
    by (simp add: generated_hourly)
  have f3: "baseAnomalyRate cs
     = (if 0 < totalLogs cs
        then js_div (of_nat (suspiciousCount cs)) (of_nat (totalLogs cs))
        else to_double (2 / 100))"
    by (simp add: baseAnomalyRate_def)
  show ?thesis
    using f1 totalThreats_eq[of cs] f2 f3 ex nz zero_input_values(1) z1 z2
    by (intro conjI)
qed

lemma ceiling_examples:
  "\<lceil>(6::rat) / 5\<rceil> = 2" "\<lceil>(4::rat) / 5\<rceil> = 1" "\<lceil>(3::rat) / 10\<rceil> = 1"
  "\<lceil>(1::rat) / 5\<rceil> = 1" "\<lceil>(1::rat) / 10\<rceil> = 1" "\<lceil>(2::rat) / 5\<rceil> = 1"
  "\<lceil>(3::rat) / 5\<rceil> = 1"
  by (rule ceiling_unique; simp)+

theorem C5_scenario_A_witness:
  "suspiciousCount \<lparr> totalLogs = 100, normalCount = 90, suspiciousCount = 10 \<rparr> < 2 ^ 47
   \<and> counts (threat_categories (generateDataFromStats hh_mm_utc 1200000
         \<lparr> totalLogs = 100, normalCount = 90, suspiciousCount = 10 \<rparr>)) = [4, 3, 2, 1]
   \<and> threat_counts (hourly_patterns (generateDataFromStats hh_mm_utc 1200000
         \<lparr> totalLogs = 100, normalCount = 90, suspiciousCount = 10 \<rparr>)) = [2, 1, 1, 1, 1, 1, 1, 1]"
proof -
  let ?cs = "\<lparr> totalLogs = 100, normalCount = 90, suspiciousCount = 10 \<rparr>"
  have h: "suspiciousCount ?cs < 2 ^ 47" by simp
  have c: "spec_category_counts ?cs = [4, 3, 2, 1]"
    by (simp add: spec_category_counts_def)
  have r: "spec_hourly_counts ?cs = [2, 1, 1, 1, 1, 1, 1, 1]"
    by (simp add: spec_hourly_counts_def spec_base_rate_def ceiling_examples)
  have "suspiciousCount ?cs < 2 ^ 47 \<longrightarrow>
        counts (threat_categories (generateDataFromStats hh_mm_utc 1200000 ?cs))
          = spec_category_counts ?cs
        \<and> threat_counts (hourly_patterns (generateDataFromStats hh_mm_utc 1200000 ?cs))
          = spec_hourly_counts ?cs"
    using C5_counts_are_ceilings[of hh_mm_utc 1200000 ?cs] by (elim conjE)
  then have "counts (threat_categories (generateDataFromStats hh_mm_utc 1200000 ?cs)) = [4, 3, 2, 1]"
    "threat_counts (hourly_patterns (generateDataFromStats hh_mm_utc 1200000 ?cs))
       = [2, 1, 1, 1, 1, 1, 1, 1]"
    using h unfolding c r by blast+
  then show ?thesis using h by (intro conjI)
qed

lemma generated_last_point:
  "last (normal_counts (timeline_data (generateDataFromStats fmt now cs))) = of_nat (normalCount cs)"
  by (simp add: generated_timeline or_zero_def)

lemma synthesis_differs:
  "generateDataFromStats fmt now no_stats \<noteq> generateDataFromStats fmt now scenario_A_stats"
proof
  assume "generateDataFromStats fmt now no_stats = generateDataFromStats fmt now scenario_A_stats"
  then have "last (normal_counts (timeline_data (generateDataFromStats fmt now no_stats)))
           = last (normal_counts (timeline_data (generateDataFromStats fmt now scenario_A_stats)))"
    by simp
  then show False
    by (simp add: generated_last_point no_stats_def scenario_A_stats_def)
qed

section \<open>Properties of the Charts component\<close>

lemma settle_success:
  assumes "get_prop data ''last_updated'' = Inr v" and "\<not> to_primitive_throws v"
  shows "fetchChartData_settle fmt t captured (Json data) s =
           s\<lparr> chartData := ServerData data,
              lastUpdated := Some (DateFromValue v),
              connectionStatus := ''connected'',
              useSessionData := True,
              isLoading := False \<rparr>"
  using assms by (simp add: fetchChartData_settle_def fetchChartData_try_def new_Date_def)

lemma settle_failure:
  assumes "pull_fails outcome"
  shows "fetchChartData_settle fmt t captured outcome s =
           s\<lparr> connectionStatus := ''error'',
              useSessionData := False,
              chartData := GeneratedData (generateDataFromStats fmt t captured),
              isLoading := False \<rparr>"
  using assms
  by (cases outcome)
     (auto simp: fetchChartData_settle_def fetchChartData_try_def fetchChartData_catch_def
                 pull_fails_def new_Date_def split: sum.splits)

lemma mount_state:
  "charts_mount stats0 =
     \<lparr> chartData = ServerData JNull, lastUpdated = None, isLoading = True,
       connectionStatus = ''connecting'', useSessionData = True, stats = stats0,
       stats_first_render = stats0, in_flight = [stats0] \<rparr>"
  by (simp add: charts_mount_def fetchChartData_start_def)

lemma first_pull_fails:
  "step fmt (charts_mount stats0) (PullSettled 0 NetworkError t t') =
     \<lparr> chartData = GeneratedData (generateDataFromStats fmt t' stats0),
       lastUpdated = Some (DateAt t'), isLoading = False,
       connectionStatus = ''error'', useSessionData = False, stats = stats0,
       stats_first_render = stats0, in_flight = [] \<rparr>"
  by (simp add: mount_state settle_failure pull_fails_def stats_effect_def remove_nth_def)

lemma failed_pull_state:
  assumes "i < length (in_flight s)" and "pull_fails outcome"
  shows "\<not> useSessionData (step fmt s (PullSettled i outcome t t'))
       \<and> connectionStatus (step fmt s (PullSettled i outcome t t')) = ''error''
       \<and> chartData (step fmt s (PullSettled i outcome t t')) =
           (if useSessionData s
            then GeneratedData (generateDataFromStats fmt t' (stats s))
            else GeneratedData (generateDataFromStats fmt t (in_flight s ! i)))"
  using assms by (simp add: settle_failure stats_effect_def Let_def)

lemma pull_fails_Json:
  "pull_fails (Json data) \<longleftrightarrow>
     data = JNull \<or> data = JUndefined
     \<or> (\<exists>v. get_prop data ''last_updated'' = Inr v \<and> to_primitive_throws v)"
  by (cases data) (simp_all add: pull_fails_def)

lemma pull_succeeds_Json:
  assumes "\<not> pull_fails (Json data)"
  obtains v where "get_prop data ''last_updated'' = Inr v" and "\<not> to_primitive_throws v"
  using assms by (cases "get_prop data ''last_updated''") (simp_all add: pull_fails_def)

lemma unconvertible_last_updated_fails:
  "pull_fails (Json (JObj [(''last_updated'', JObj [(''valueOf'', JNum 1), (''toString'', JNum 2)])]))"
  by (simp add: pull_fails_def)

text \<open>
  Claim C3, as stated, fails: a response with status ok whose body is the JSON \<open>null\<close> is
  decoded without error, but \<open>data.last_updated\<close> throws inside the \<open>try\<close> block, and the
  \<open>catch\<close> branch leaves the state Synthesized with connection state error.
\<close>

theorem C3_null_body_counterexample:
  "\<not> useSessionData (step hh_mm_utc (charts_mount no_stats) (PullSettled 0 (Json JNull) 1000 1001))
   \<and> connectionStatus (step hh_mm_utc (charts_mount no_stats) (PullSettled 0 (Json JNull) 1000 1001))
       = ''error''
   \<and> chartData (step hh_mm_utc (charts_mount no_stats) (PullSettled 0 (Json JNull) 1000 1001))
       = GeneratedData (generateDataFromStats hh_mm_utc 1001 no_stats)"
proof -
  have i: "0 < length (in_flight (charts_mount no_stats))" by (simp add: mount_state)
  have f: "pull_fails (Json JNull)" by (simp add: pull_fails_def)
  have u: "useSessionData (charts_mount no_stats)" "stats (charts_mount no_stats) = no_stats"
    by (simp_all add: mount_state)
  show ?thesis
    using failed_pull_state[OF i f, of hh_mm_utc 1000 1001] u by simp
qed

text \<open>
  Claim C3, amended. When a pull in flight settles with status ok and the handler's \<open>try\<close>
  block completes (the body decodes to a value other than \<open>null\<close> whose \<open>last_updated\<close>
  \<open>new Date\<close> can convert), the resulting state has \<open>useSessionData = true\<close> (source Remote),
  \<open>connectionStatus = 'connected'\<close>, and \<open>chartData\<close>, the dataset the component renders from,
  is exactly the decoded payload, nothing of it reshaped, filtered or merged with what was
  held before; the loading flag is cleared and the pull has left the set of pulls in flight.
  A decoded body that is \<open>null\<close>, or whose \<open>last_updated\<close> cannot be converted, is handled as a
  failed pull: the state is Synthesized with connection state error.
\<close>

theorem C3_successful_pull_adopts_payload:
  assumes "i < length (in_flight s)"
  shows "(\<not> pull_fails (Json data) \<longrightarrow>
            useSessionData (step fmt s (PullSettled i (Json data) t t'))
          \<and> connectionStatus (step fmt s (PullSettled i (Json data) t t')) = ''connected''
          \<and> chartData (step fmt s (PullSettled i (Json data) t t')) = ServerData data
          \<and> \<not> isLoading (step fmt s (PullSettled i (Json data) t t'))
          \<and> in_flight (step fmt s (PullSettled i (Json data) t t')) = remove_nth i (in_flight s)
          \<and> stats (step fmt s (PullSettled i (Json data) t t')) = stats s)
       \<and> (pull_fails (Json data) \<longrightarrow>
            \<not> useSessionData (step fmt s (PullSettled i (Json data) t t'))
          \<and> connectionStatus (step fmt s (PullSettled i (Json data) t t')) = ''error'')
       \<and> (pull_fails (Json data) \<longleftrightarrow>
            data = JNull \<or> data = JUndefined
            \<or> (\<exists>v. get_prop data ''last_updated'' = Inr v \<and> to_primitive_throws v))"
proof (intro conjI impI)
  assume ok: "\<not> pull_fails (Json data)"
  then obtain v where v: "get_prop data ''last_updated'' = Inr v" "\<not> to_primitive_throws v"
    by (rule pull_succeeds_Json)
  have st: "step fmt s (PullSettled i (Json data) t t') =
              s\<lparr> in_flight := remove_nth i (in_flight s),
                 chartData := ServerData data,
                 lastUpdated := Some (DateFromValue v),
                 connectionStatus := ''connected'',
                 useSessionData := True,
                 isLoading := False \<rparr>"
    using assms by (simp add: settle_success[OF v] stats_effect_def Let_def)
  show "useSessionData (step fmt s (PullSettled i (Json data) t t'))"
    "connectionStatus (step fmt s (PullSettled i (Json data) t t')) = ''connected''"
    "chartData (step fmt s (PullSettled i (Json data) t t')) = ServerData data"
    "\<not> isLoading (step fmt s (PullSettled i (Json data) t t'))"
    "in_flight (step fmt s (PullSettled i (Json data) t t')) = remove_nth i (in_flight s)"
    "stats (step fmt s (PullSettled i (Json data) t t')) = stats s"
    unfolding st by simp_all
next
  assume f: "pull_fails (Json data)"
  show "\<not> useSessionData (step fmt s (PullSettled i (Json data) t t'))"
    "connectionStatus (step fmt s (PullSettled i (Json data) t t')) = ''error''"
    using failed_pull_state[OF assms f, of fmt t t'] by simp_all
next
  show "pull_fails (Json data) \<longleftrightarrow>
          data = JNull \<or> data = JUndefined
          \<or> (\<exists>v. get_prop data ''last_updated'' = Inr v \<and> to_primitive_throws v)"
    by (rule pull_fails_Json)
qed

lemma scenario_B_pull_succeeds: "\<not> pull_fails (Json scenario_B_payload)"
  by (simp add: pull_fails_def scenario_B_payload_def)

theorem C3_scenario_B_witness:
  "0 < length (in_flight (charts_mount no_stats))
   \<and> \<not> pull_fails (Json scenario_B_payload)
   \<and> useSessionData (step hh_mm_utc (charts_mount no_stats)
         (PullSettled 0 (Json scenario_B_payload) 1000 1001))
   \<and> connectionStatus (step hh_mm_utc (charts_mount no_stats)
         (PullSettled 0 (Json scenario_B_payload) 1000 1001)) = ''connected''
   \<and> chartData (step hh_mm_utc (charts_mount no_stats)
         (PullSettled 0 (Json scenario_B_payload) 1000 1001)) = ServerData scenario_B_payload
   \<and> pull_fails (Json JNull)
   \<and> connectionStatus (step hh_mm_utc (charts_mount no_stats)
         (PullSettled 0 (Json JNull) 1000 1001)) = ''error''"
proof -
  have h: "0 < length (in_flight (charts_mount no_stats))" by (simp add: mount_state)
  have n: "pull_fails (Json JNull)" by (simp add: pull_fails_def)
  have a: "\<not> pull_fails (Json scenario_B_payload) \<longrightarrow>
            useSessionData (step hh_mm_utc (charts_mount no_stats)
              (PullSettled 0 (Json scenario_B_payload) 1000 1001))
          \<and> connectionStatus (step hh_mm_utc (charts_mount no_stats)
              (PullSettled 0 (Json scenario_B_payload) 1000 1001)) = ''connected''
          \<and> chartData (step hh_mm_utc (charts_mount no_stats)
              (PullSettled 0 (Json scenario_B_payload) 1000 1001)) = ServerData scenario_B_payload"
    using C3_successful_pull_adopts_payload[OF h, of scenario_B_payload hh_mm_utc 1000 1001]
    by blast
  have b: "pull_fails (Json JNull) \<longrightarrow>
            connectionStatus (step hh_mm_utc (charts_mount no_stats)
              (PullSettled 0 (Json JNull) 1000 1001)) = ''error''"
    using C3_successful_pull_adopts_payload[OF h, of JNull hh_mm_utc 1000 1001]
    by blast
  show ?thesis using h n scenario_B_pull_succeeds a b by blast
qed

text \<open>
  Claim C8. When the parent passes new LocalStats while \<open>useSessionData\<close> is false (source
  Synthesized), the displayed dataset becomes the synthesis of the new LocalStats at once,
  and no pull is issued; when \<open>useSessionData\<close> is true (source Remote), the displayed
  dataset is left as it is.
\<close>

theorem C8_stats_change:
  "(\<not> useSessionData s \<longrightarrow>
       chartData (step fmt s (StatsChanged new t)) = GeneratedData (generateDataFromStats fmt t new))
   \<and> (useSessionData s \<longrightarrow> chartData (step fmt s (StatsChanged new t)) = chartData s)
   \<and> in_flight (step fmt s (StatsChanged new t)) = in_flight s
   \<and> useSessionData (step fmt s (StatsChanged new t)) = useSessionData s
   \<and> stats (step fmt s (StatsChanged new t)) = new"
  by (simp add: stats_effect_def)

theorem C8_stats_change_witness:
  "chartData (step hh_mm_utc
       (step hh_mm_utc (charts_mount no_stats) (PullSettled 0 NetworkError 1000 1001))
       (StatsChanged scenario_A_stats 5000))
     = GeneratedData (generateDataFromStats hh_mm_utc 5000 scenario_A_stats)
   \<and> chartData (step hh_mm_utc
       (step hh_mm_utc (charts_mount no_stats) (PullSettled 0 (Json scenario_B_payload) 1000 1001))
       (StatsChanged scenario_A_stats 5000))
     = ServerData scenario_B_payload
   \<and> in_flight (step hh_mm_utc
       (step hh_mm_utc (charts_mount no_stats) (PullSettled 0 NetworkError 1000 1001))
       (StatsChanged scenario_A_stats 5000)) = []"
proof -
  let ?synth = "step hh_mm_utc (charts_mount no_stats) (PullSettled 0 NetworkError 1000 1001)"
  let ?remote = "step hh_mm_utc (charts_mount no_stats) (PullSettled 0 (Json scenario_B_payload) 1000 1001)"
  have a: "\<not> useSessionData ?synth" "in_flight ?synth = []"
    unfolding first_pull_fails by simp_all
  have lu: "get_prop scenario_B_payload ''last_updated'' = Inr (JStr ''2024-05-01T10:00:00'')"
    by (simp add: scenario_B_payload_def)
  have cv: "\<not> to_primitive_throws (JStr ''2024-05-01T10:00:00'')" by simp
  have b: "useSessionData ?remote" "chartData ?remote = ServerData scenario_B_payload"
    by (simp_all add: mount_state settle_success[OF lu cv] remove_nth_def)
  show ?thesis
    using C8_stats_change[of ?synth hh_mm_utc scenario_A_stats 5000]
          C8_stats_change[of ?remote hh_mm_utc scenario_A_stats 5000] a b
    by simp
qed

text \<open>
  Claim C1, as stated, fails: the timer tick calls \<open>fetchChartData\<close> with no test of any
  state, so a tick that arrives while the pull of the mount is still in flight issues a
  second pull.
\<close>

theorem C1_two_pulls_counterexample:
  "length (in_flight (run hh_mm_utc (charts_mount no_stats) [TimerTick])) = 2"
  by (simp add: run_def mount_state fetchChartData_start_def)

text \<open>
  Claim C1, amended. The component does not serialize pulls: every timer tick issues one
  more pull, whatever the state, so that after the mount and \<open>n\<close> ticks with no pull settled
  \<open>n + 1\<close> pulls are in flight. Only the manual refresh is gated: while \<open>isLoading\<close> is set
  the Refresh button cannot be clicked and a manual refresh changes nothing; when the button
  can be clicked it issues one more pull.
\<close>

theorem C1_pulls_not_serialized:
  "in_flight (step fmt s TimerTick) = in_flight s @ [stats_first_render s]
   \<and> length (in_flight (run fmt (charts_mount stats0) (replicate n TimerTick))) = n + 1
   \<and> (isLoading s \<longrightarrow> step fmt s ManualRefresh = s)
   \<and> (refresh_clickable s \<longrightarrow>
         in_flight (step fmt s ManualRefresh) = in_flight s @ [stats s])"
proof -
  have ticks: "length (in_flight (foldl (step fmt) s0 (replicate n TimerTick)))
                 = n + length (in_flight s0)" for s0
    by (induction n arbitrary: s0) (simp_all add: fetchChartData_start_def)
  show ?thesis
    by (simp add: run_def ticks mount_state fetchChartData_start_def refresh_clickable_def)
qed

theorem C1_manual_refresh_witness:
  "isLoading (charts_mount no_stats)
   \<and> step hh_mm_utc (charts_mount no_stats) ManualRefresh = charts_mount no_stats
   \<and> refresh_clickable (step hh_mm_utc (charts_mount no_stats) (PullSettled 0 NetworkError 1000 1001))
   \<and> in_flight (step hh_mm_utc
         (step hh_mm_utc (charts_mount no_stats) (PullSettled 0 NetworkError 1000 1001))
         ManualRefresh) = [no_stats]
   \<and> length (in_flight (run hh_mm_utc (charts_mount no_stats) (replicate 3 TimerTick))) = 4"
proof -
  let ?idle = "step hh_mm_utc (charts_mount no_stats) (PullSettled 0 NetworkError 1000 1001)"
  have a: "isLoading (charts_mount no_stats)" by (simp add: mount_state)
  have b: "refresh_clickable ?idle" "in_flight ?idle = []" "stats ?idle = no_stats"
    unfolding first_pull_fails by (simp_all add: refresh_clickable_def)
  show ?thesis
    using C1_pulls_not_serialized[of hh_mm_utc "charts_mount no_stats" no_stats 3]
          C1_pulls_not_serialized[of hh_mm_utc ?idle no_stats 3] a b
    by simp
qed

text \<open>
  Claim C2 on the code. The mount pull fails (fallback from the all-zero LocalStats), a
  detection test then sets LocalStats to Scenario A, and the pull of the next timer tick fails
  too. The handler of that pull belongs to the closure of the first render: the state is
  Synthesized with connection state error, but the displayed dataset is the synthesis of the
  LocalStats of the mount, not of the current ones.
\<close>

theorem C2_timer_failure_uses_mount_stats:
  "stats (run hh_mm_utc (charts_mount no_stats) stale_run) = scenario_A_stats
   \<and> \<not> useSessionData (run hh_mm_utc (charts_mount no_stats) stale_run)
   \<and> connectionStatus (run hh_mm_utc (charts_mount no_stats) stale_run) = ''error''
   \<and> chartData (run hh_mm_utc (charts_mount no_stats) stale_run)
       = GeneratedData (generateDataFromStats hh_mm_utc 31000 no_stats)
   \<and> chartData (run hh_mm_utc (charts_mount no_stats) stale_run)
       \<noteq> GeneratedData (generateDataFromStats hh_mm_utc 31000 scenario_A_stats)"
proof -
  let ?s1 = "step hh_mm_utc (charts_mount no_stats) (PullSettled 0 NetworkError 1000 1001)"
  let ?s2 = "step hh_mm_utc ?s1 (StatsChanged scenario_A_stats 5000)"
  let ?s3 = "step hh_mm_utc ?s2 TimerTick"
  let ?s4 = "step hh_mm_utc ?s3 (PullSettled 0 (HttpNotOk 500) 31000 31001)"
  have r: "run hh_mm_utc (charts_mount no_stats) stale_run = ?s4"
    by (simp only: run_def stale_run_def foldl.simps)
  have s3: "in_flight ?s3 = [no_stats]" "\<not> useSessionData ?s3" "stats ?s3 = scenario_A_stats"
    unfolding first_pull_fails by (simp_all add: stats_effect_def fetchChartData_start_def)
  have f: "pull_fails (HttpNotOk 500)" by (simp add: pull_fails_def)
  have i: "0 < length (in_flight ?s3)" using s3(1) by simp
  have c: "chartData ?s4 = GeneratedData (generateDataFromStats hh_mm_utc 31000 no_stats)"
    using failed_pull_state[OF i f, of hh_mm_utc 31000 31001] s3 by simp
  have st: "stats ?s4 = scenario_A_stats"
    using i s3(3) by (simp add: settle_failure[OF f] stats_effect_def Let_def)
  show ?thesis
    unfolding r
    using failed_pull_state[OF i f, of hh_mm_utc 31000 31001] c st synthesis_differs
    by simp
qed

section \<open>Properties of the push channel handler\<close>

text \<open>
  Claim C9, as stated, fails on a malformed message: \<open>JSON.parse\<close> throws a \<open>SyntaxError\<close>
  inside the handler, which has no \<open>try\<close>; the exception leaves the handler.
\<close>

theorem C9_malformed_counterexample:
  "onmessage NotJson = Inl SyntaxError"
  by (simp add: onmessage_def)

text \<open>
  Claim C9, amended. For a message that parses to a value other than \<open>null\<close>: when its
  \<open>type\<close> is one of \<open>session_detection_complete\<close>, \<open>periodic_update\<close>, \<open>stats_update\<close>, the
  handler issues exactly one pull; for any other \<open>type\<close> (another string, no \<open>type\<close>, not a
  string) it issues no pull and raises no error. A message that is not JSON, or that is the
  JSON \<open>null\<close>, makes the handler throw (\<open>SyntaxError\<close>, \<open>TypeError\<close>) before any pull is
  issued.
\<close>

theorem C9_push_message_dispatch:
  "(get_prop message ''type'' = Inr ty \<longrightarrow>
      onmessage (Parsed message) =
        Inr (if ty \<in> {JStr ''session_detection_complete'', JStr ''periodic_update'',
                        JStr ''stats_update''} then 1 else 0))
   \<and> onmessage NotJson = Inl SyntaxError
   \<and> onmessage (Parsed JNull) = Inl TypeError"
  by (simp add: onmessage_def)

theorem C9_scenarios_C_D_witness:
  "get_prop (JObj [(''type'', JStr ''stats_update'')]) ''type'' = Inr (JStr ''stats_update'')
   \<and> onmessage (Parsed (JObj [(''type'', JStr ''stats_update'')])) = Inr 1
   \<and> get_prop (JObj [(''type'', JStr ''unknown_kind'')]) ''type'' = Inr (JStr ''unknown_kind'')
   \<and> onmessage (Parsed (JObj [(''type'', JStr ''unknown_kind'')])) = Inr 0"
  using C9_push_message_dispatch[of "JObj [(''type'', JStr ''stats_update'')]" "JStr ''stats_update''"]
        C9_push_message_dispatch[of "JObj [(''type'', JStr ''unknown_kind'')]" "JStr ''unknown_kind''"]
  by simp

section \<open>Properties of the status classification\<close>

lemma get_prop_Inr_iff: "(\<exists>v. get_prop a k = Inr v) \<longleftrightarrow> a \<noteq> JNull \<and> a \<noteq> JUndefined"
  by (cases a) simp_all

lemma get_prop_total:
  assumes "a \<noteq> JNull" and "a \<noteq> JUndefined"
  obtains v where "get_prop a k = Inr v"
  using assms by (cases a) simp_all

lemma advanced_probe_resolved:
  assumes "get_prop a ''real_data_enabled'' = Inr rde"
    and "get_prop a ''model_trained'' = Inr mt" and "get_prop a ''version'' = Inr ver"
  shows "advanced_probe (Resolved a) =
           (if rde \<noteq> JUndefined
            then Some \<lparr> online = JBool True, modelTrained = js_or mt (JBool False),
                        realDataEnabled = js_or rde (JBool False),
                        version = js_or ver (JStr ''2.0.0'') \<rparr>
            else None)"
  using assms by (simp add: advanced_probe_def)

lemma advanced_probe_null:
  "advanced_probe Rejected = None"
  "advanced_probe (Resolved JNull) = None"
  "advanced_probe (Resolved JUndefined) = None"
  by (simp_all add: advanced_probe_def)

lemma advanced_probe_online:
  assumes "advanced_probe advanced = Some st"
  shows "online st = JBool True"
proof (cases advanced)
  case Rejected
  then show ?thesis using assms by (simp add: advanced_probe_null)
next
  case (Resolved a)
  show ?thesis
  proof (cases "a = JNull \<or> a = JUndefined")
    case True
    then show ?thesis using assms Resolved by (auto simp: advanced_probe_null)
  next
    case False
    then have nn: "a \<noteq> JNull" "a \<noteq> JUndefined" by simp_all
    obtain rde where g1: "get_prop a ''real_data_enabled'' = Inr rde"
      using get_prop_total[OF nn] by blast
    obtain mt where g2: "get_prop a ''model_trained'' = Inr mt"
      using get_prop_total[OF nn] by blast
    obtain ver where g3: "get_prop a ''version'' = Inr ver"
      using get_prop_total[OF nn] by blast
    note g = g1 g2 g3
    show ?thesis
    proof (cases "rde = JUndefined")
      case True
      then show ?thesis using assms Resolved by (simp add: advanced_probe_resolved[OF g])
    next
      case False
      then have "st = \<lparr> online = JBool True, modelTrained = js_or mt (JBool False),
                        realDataEnabled = js_or rde (JBool False),
                        version = js_or ver (JStr ''2.0.0'') \<rparr>"
        using assms Resolved by (simp add: advanced_probe_resolved[OF g])
      then show ?thesis by simp
    qed
  qed
qed

lemma advanced_probe_None_iff:
  "advanced_probe advanced = None \<longleftrightarrow>
     advanced = Rejected \<or> advanced = Resolved JNull \<or> advanced = Resolved JUndefined
     \<or> (\<exists>a. advanced = Resolved a \<and> get_prop a ''real_data_enabled'' = Inr JUndefined)"
proof (cases advanced)
  case Rejected
  then show ?thesis by (simp add: advanced_probe_null)
next
  case (Resolved a)
  show ?thesis
  proof (cases "a = JNull \<or> a = JUndefined")
    case True
    then show ?thesis using Resolved by (auto simp: advanced_probe_null)
  next
    case False
    then have nn: "a \<noteq> JNull" "a \<noteq> JUndefined" by simp_all
    obtain rde where g1: "get_prop a ''real_data_enabled'' = Inr rde"
      using get_prop_total[OF nn] by blast
    obtain mt where g2: "get_prop a ''model_trained'' = Inr mt"
      using get_prop_total[OF nn] by blast
    obtain ver where g3: "get_prop a ''version'' = Inr ver"
      using get_prop_total[OF nn] by blast
    note g = g1 g2 g3
    show ?thesis using Resolved False g(1)
      by (simp add: advanced_probe_resolved[OF g])
  qed
qed

lemma basic_probe_online:
  "online (basic_probe basic) =
     (if basic = Rejected \<or> basic = Resolved JNull \<or> basic = Resolved JUndefined
      then JBool False else JBool True)"
proof (cases basic)
  case Rejected
  then show ?thesis by (simp add: basic_probe_def)
next
  case (Resolved status)
  show ?thesis
  proof (cases "status = JNull \<or> status = JUndefined")
    case True
    then show ?thesis using Resolved by (auto simp: basic_probe_def)
  next
    case False
    then have nn: "status \<noteq> JNull" "status \<noteq> JUndefined" by simp_all
    obtain ss where g1: "get_prop status ''system_status'' = Inr ss"
      using get_prop_total[OF nn] by blast
    obtain mt where g2: "get_prop status ''model_trained'' = Inr mt"
      using get_prop_total[OF nn] by blast
    show ?thesis using Resolved False g1 g2
      by (simp add: basic_probe_def js_or_def strict_eq_str_def)
  qed
qed

text \<open>
  Claim C10, as stated, fails in two places: \<open>online\<close> is false although the advanced request
  did not fail (it returned an object without \<open>real_data_enabled\<close>, and the basic request
  failed), and a basic response that is the parseable JSON \<open>null\<close> is classified offline.
\<close>

theorem C10_offline_counterexample:
  "online (checkSystemStatus (Resolved (JObj [(''model_trained'', JBool True)])) Rejected) = JBool False
   \<and> online (checkSystemStatus Rejected (Resolved JNull)) = JBool False"
  by (simp add: checkSystemStatus_def advanced_probe_def basic_probe_def)

text \<open>
  Claim C10, amended. When the advanced probe does not classify (the request fails, returns
  \<open>null\<close>, or returns a value without \<open>real_data_enabled\<close>) and the basic request returns any
  JSON value other than \<open>null\<close>, the system is classified online whatever the value of
  \<open>system_status\<close>: the guard \<open>status.system_status === 'healthy' || true\<close> is true. \<open>online\<close> is
  false exactly when the advanced probe does not classify and the basic request fails or
  returns \<open>null\<close>.
\<close>

theorem C10_basic_fallback_online:
  "(advanced_probe advanced = None \<and> get_prop status ''system_status'' = Inr ss \<longrightarrow>
       online (checkSystemStatus advanced (Resolved status)) = JBool True)
   \<and> js_or (strict_eq_str ss ''healthy'') (JBool True) = JBool True
   \<and> (online (checkSystemStatus advanced basic) = JBool False \<longleftrightarrow>
        advanced_probe advanced = None
        \<and> (basic = Rejected \<or> basic = Resolved JNull \<or> basic = Resolved JUndefined))
   \<and> (advanced_probe advanced = None \<longleftrightarrow>
        advanced = Rejected \<or> advanced = Resolved JNull \<or> advanced = Resolved JUndefined
        \<or> (\<exists>a. advanced = Resolved a \<and> get_prop a ''real_data_enabled'' = Inr JUndefined))"
proof -
  have 1: "advanced_probe advanced = None \<and> get_prop status ''system_status'' = Inr ss \<longrightarrow>
       online (checkSystemStatus advanced (Resolved status)) = JBool True"
    using get_prop_Inr_iff[of status "''system_status''"]
    by (auto simp: checkSystemStatus_def basic_probe_online)
  have 2: "js_or (strict_eq_str ss ''healthy'') (JBool True) = JBool True"
    by (simp add: js_or_def strict_eq_str_def)
  have 3: "online (checkSystemStatus advanced basic) = JBool False \<longleftrightarrow>
        advanced_probe advanced = None
        \<and> (basic = Rejected \<or> basic = Resolved JNull \<or> basic = Resolved JUndefined)"
  proof (cases "advanced_probe advanced")
    case None
    then show ?thesis by (simp add: checkSystemStatus_def basic_probe_online)
  next
    case (Some st)
    then show ?thesis using advanced_probe_online[OF Some] by (simp add: checkSystemStatus_def)
  qed
  show ?thesis
    apply (intro conjI)
       apply (rule 1)
      apply (rule 2)
     apply (rule 3)
    apply (rule advanced_probe_None_iff)
    done
qed

theorem C10_degraded_status_witness:
  "advanced_probe Rejected = None
   \<and> get_prop (JObj [(''system_status'', JStr ''degraded'')]) ''system_status'' = Inr (JStr ''degraded'')
   \<and> online (checkSystemStatus Rejected (Resolved (JObj [(''system_status'', JStr ''degraded'')])))
       = JBool True
   \<and> online (checkSystemStatus Rejected Rejected) = JBool False"
proof -
  have a: "advanced_probe Rejected = None" by (simp add: advanced_probe_def)
  have b: "get_prop (JObj [(''system_status'', JStr ''degraded'')]) ''system_status''
             = Inr (JStr ''degraded'')" by simp
  show ?thesis
    using C10_basic_fallback_online[of Rejected "JObj [(''system_status'', JStr ''degraded'')]"
            "JStr ''degraded''" Rejected] a b
    by simp
qed

end
